theory Spec2Isabelle
  imports Complex_Main "HOL-Library.Signed_Division"
begin

section \<open>The memory backend (GumV8MemoryBackend)\<close>

text \<open>
  Modelled from the spec: \<^verbatim>\<open>gum_memory_allocate\<close>, \<^verbatim>\<open>gum_memory_release\<close>,
  \<^verbatim>\<open>gum_cloak_add_range\<close> and \<^verbatim>\<open>gum_cloak_remove_range\<close> (declared in
  gum/gummemory.h and gum/gumcloak.h, their code is not among the sources) are the
  host's allocator and its address-range registry with add-range and remove-range.
  The backend is a pass-through to them. The model keeps the host as the chronological
  trace of the calls made into it; what the host answers (the base address of an
  allocation, the success of a release) is an input of the model, so every statement
  holds for every answer the host can give.
\<close>

type_synonym gpointer = nat

definition NULL :: gpointer where
  "NULL = 0"

datatype GumPageProtection = GUM_PAGE_RW | GUM_PAGE_RWX

record GumMemoryRange =
  base_address :: nat
  size' :: nat

datatype host_call =
    Gum_memory_allocate nat GumPageProtection gpointer
  | Gum_memory_release gpointer nat
  | Gum_cloak_add_range GumMemoryRange
  | Gum_cloak_remove_range GumMemoryRange

text \<open>The host calls: each appends itself to the trace and returns the host's answer.\<close>

definition gum_memory_allocate ::
  "gpointer \<Rightarrow> nat \<Rightarrow> GumPageProtection \<Rightarrow> gpointer \<Rightarrow> host_call list \<Rightarrow> gpointer \<times> host_call list" where
  "gum_memory_allocate answer sz prot hint tr = (answer, tr @ [Gum_memory_allocate sz prot hint])"

definition gum_memory_release ::
  "bool \<Rightarrow> gpointer \<Rightarrow> nat \<Rightarrow> host_call list \<Rightarrow> bool \<times> host_call list" where
  "gum_memory_release answer address sz tr = (answer, tr @ [Gum_memory_release address sz])"

definition gum_cloak_add_range :: "GumMemoryRange \<Rightarrow> host_call list \<Rightarrow> host_call list" where
  "gum_cloak_add_range r tr = tr @ [Gum_cloak_add_range r]"

definition gum_cloak_remove_range :: "GumMemoryRange \<Rightarrow> host_call list \<Rightarrow> host_call list" where
  "gum_cloak_remove_range r tr = tr @ [Gum_cloak_remove_range r]"

definition Cloak :: "gpointer \<Rightarrow> nat \<Rightarrow> host_call list \<Rightarrow> host_call list" where
  "Cloak base sz tr = gum_cloak_add_range \<lparr>base_address = base, size' = sz\<rparr> tr"

definition Uncloak :: "gpointer \<Rightarrow> nat \<Rightarrow> host_call list \<Rightarrow> host_call list" where
  "Uncloak base sz tr = gum_cloak_remove_range \<lparr>base_address = base, size' = sz\<rparr> tr"

text \<open>
  \<^verbatim>\<open>Allocate (address, size, is_executable)\<close>; \<open>answer\<close> is what
  \<^verbatim>\<open>gum_memory_allocate\<close> returns.
\<close>

definition GumV8MemoryBackend_Allocate ::
  "gpointer \<Rightarrow> gpointer \<Rightarrow> nat \<Rightarrow> bool \<Rightarrow> host_call list \<Rightarrow> gpointer \<times> host_call list" where
  "GumV8MemoryBackend_Allocate answer address sz is_executable tr =
     (let (base, tr1) =
            gum_memory_allocate answer sz (if is_executable then GUM_PAGE_RWX else GUM_PAGE_RW)
              address tr;
          tr2 = (if base \<noteq> NULL then Cloak base sz tr1 else tr1)
      in (base, tr2))"

text \<open>
  \<^verbatim>\<open>Free (address, size)\<close>; \<open>answer\<close> is what \<^verbatim>\<open>gum_memory_release\<close>
  returns.
\<close>

definition GumV8MemoryBackend_Free ::
  "bool \<Rightarrow> gpointer \<Rightarrow> nat \<Rightarrow> host_call list \<Rightarrow> bool \<times> host_call list" where
  "GumV8MemoryBackend_Free answer address sz tr =
     (let (success, tr1) = gum_memory_release answer address sz tr;
          tr2 = (if success then Uncloak address sz tr1 else tr1)
      in (success, tr2))"

definition GumV8MemoryBackend_Release ::
  "bool \<Rightarrow> gpointer \<Rightarrow> nat \<Rightarrow> host_call list \<Rightarrow> bool \<times> host_call list" where
  "GumV8MemoryBackend_Release answer address sz tr = GumV8MemoryBackend_Free answer address sz tr"

text \<open>\<open>precedes a b tr\<close>: the first call \<open>a\<close> of the trace is followed by a call \<open>b\<close>.\<close>

fun precedes :: "'a \<Rightarrow> 'a \<Rightarrow> 'a list \<Rightarrow> bool" where
  "precedes a b [] = False"
| "precedes a b (x # xs) = (if x = a then b \<in> set xs else precedes a b xs)"


section \<open>The platform and its operations\<close>

text \<open>
  Objects live in a heap that only grows: an operation handle (a
  \<^verbatim>\<open>std::shared_ptr<GumV8Operation>\<close>) is the index of its object in \<open>ops\<close>, a
  runner handle the index of its object in \<open>runners\<close>, and \<^verbatim>\<open>std::make_shared\<close>
  appends a new object, so a new handle differs from every earlier one.
\<close>

type_synonym thread = nat
type_synonym isolate = nat
type_synonym op_ref = nat
type_synonym runner_ref = nat

text \<open>
  The callables (\<^verbatim>\<open>std::function<void ()>\<close>) handed to the platform: one supplied
  by a caller, identified by a tag, or one of the closures the source builds:
  \<^verbatim>\<open>[=]() { ScheduleOnThreadPool (f); }\<close> in ScheduleOnThreadPoolDelayed and
  \<^verbatim>\<open>[=]() { Run (t.get ()); }\<close> in PostIdleTask (with the runner and the idle task it
  captures).
\<close>

datatype work =
    UserFunc nat
  | SubmitToThreadPool work
  | RunIdleTask runner_ref nat

datatype op_kind = MainContextOperation | ThreadPoolOperation

text \<open>GLib's priorities, with the values of GLib's macros; a larger number is a lower priority.\<close>

definition G_PRIORITY_HIGH :: int where
  "G_PRIORITY_HIGH = - 100"

definition G_PRIORITY_DEFAULT :: int where
  "G_PRIORITY_DEFAULT = 0"

definition G_PRIORITY_LOW :: int where
  "G_PRIORITY_LOW = 300"

text \<open>
  A \<^verbatim>\<open>GSource\<close>: an idle source or a timeout source with its interval in
  milliseconds, its priority, and whether it has been destroyed.
\<close>

datatype source_type = Idle_source | Timeout_source nat

record GSource =
  stype :: source_type
  priority :: int
  destroyed :: bool

text \<open>
  Where the scheduler stands with the callback of an operation (the callback of its
  source on the main context, or its job on the thread pool): not handed to the
  scheduler, waiting to be run, running, or returned.
\<close>

datatype job_state = Unscheduled | Queued | Running | Finished

text \<open>
  An operation. \<open>kind\<close>, \<open>func\<close>, \<open>source\<close> (absent in a thread pool operation) and
  \<open>completed\<close> are the fields of the two classes. The condition variable \<open>cond\<close> is
  kept as \<open>waiters\<close>, the threads blocked in \<^verbatim>\<open>g_cond_wait\<close> on it, and \<open>woken\<close>, the
  threads a signal has unblocked and that have not yet taken the lock again. \<open>job\<close> is
  the scheduler's state, \<open>cancelling\<close> counts the calls of Cancel that have destroyed the
  source and not yet taken the lock, and \<open>returned\<close> lists the threads whose Await has
  returned.
\<close>

record operation =
  kind :: op_kind
  func :: work
  source :: "GSource option"
  completed :: bool
  waiters :: "thread list"
  woken :: "thread list"
  job :: job_state
  cancelling :: nat
  returned :: "thread list"

text \<open>
  The state guarded by the platform lock, and what the model records in order as it
  happens: a call of an operation's \<open>func\<close>, a store to guarded state together with
  whether the lock was held at that moment, a signal on an operation's condition
  variable, again with whether the lock was held, and a call of an idle task's
  \<^verbatim>\<open>Run\<close> with the deadline it is given.
\<close>

datatype guarded = JsOperations | CompletedFlag op_ref | ForegroundRunners

datatype entry =
    FuncCalled op_ref
  | Write guarded bool
  | CondSignal op_ref bool
  | IdleTaskRun nat real

text \<open>
  Modelled from the spec: the fields of GumV8Platform are declared in gumv8platform.h,
  which is not among the sources. From their uses and the spec's data model:
  \<open>js_operations\<close> is the set of outstanding operations and \<open>foreground_runners\<close> a
  mapping from isolates to shared pointers to runners (\<open>None\<close> being the null pointer).
  Beside them the platform has its lock and \<open>start_time\<close>, and the model adds the heap
  of operations, the heap of runners (each runner by its \<open>isolate\<close> field), the record
  of what happened, and the host's monotonic clock in microseconds. For the calls of
  GetForegroundTaskRunner it adds \<open>runner_calls\<close>, the threads that are inside the
  function with the isolate they asked for and the value of their local variable
  \<^verbatim>\<open>runner\<close>, and \<open>runner_returns\<close>, what each finished call returned.
\<close>

record platform =
  lock :: bool
  ops :: "operation list"
  js_operations :: "op_ref set"
  foreground_runners :: "isolate \<rightharpoonup> runner_ref option"
  runners :: "isolate list"
  trace :: "entry list"
  clock :: int
  start_time :: int
  runner_calls :: "thread \<rightharpoonup> isolate \<times> runner_ref option"
  runner_returns :: "(thread \<times> isolate \<times> runner_ref option) list"

definition GumV8Platform_new :: "int \<Rightarrow> platform" where
  "GumV8Platform_new now =
     \<lparr>lock = False, ops = [], js_operations = {}, foreground_runners = Map.empty,
      runners = [], trace = [], clock = now, start_time = now,
      runner_calls = Map.empty, runner_returns = []\<rparr>"

subsection \<open>The lock, stores to guarded state, the condition variable\<close>

definition g_mutex_lock :: "platform \<Rightarrow> platform" where
  "g_mutex_lock p = p\<lparr>lock := True\<rparr>"

definition g_mutex_unlock :: "platform \<Rightarrow> platform" where
  "g_mutex_unlock p = p\<lparr>lock := False\<rparr>"

definition record_entry :: "entry \<Rightarrow> platform \<Rightarrow> platform" where
  "record_entry e p = p\<lparr>trace := trace p @ [e]\<rparr>"

definition record_write :: "guarded \<Rightarrow> platform \<Rightarrow> platform" where
  "record_write g p = record_entry (Write g (lock p)) p"

definition update_op :: "op_ref \<Rightarrow> (operation \<Rightarrow> operation) \<Rightarrow> platform \<Rightarrow> platform" where
  "update_op r f p = p\<lparr>ops := (ops p)[r := f (ops p ! r)]\<rparr>"

definition new_operation :: "operation \<Rightarrow> platform \<Rightarrow> op_ref \<times> platform" where
  "new_operation o' p = (length (ops p), p\<lparr>ops := ops p @ [o']\<rparr>)"

definition set_completed :: "op_ref \<Rightarrow> platform \<Rightarrow> platform" where
  "set_completed r p = update_op r (\<lambda>o'. o'\<lparr>completed := True\<rparr>) (record_write (CompletedFlag r) p)"

definition js_operations_insert :: "op_ref \<Rightarrow> platform \<Rightarrow> platform" where
  "js_operations_insert r p =
     (record_write JsOperations p)\<lparr>js_operations := insert r (js_operations p)\<rparr>"

definition js_operations_erase :: "op_ref \<Rightarrow> platform \<Rightarrow> platform" where
  "js_operations_erase r p =
     (record_write JsOperations p)\<lparr>js_operations := js_operations p - {r}\<rparr>"

text \<open>
  \<^verbatim>\<open>g_cond_signal\<close>: if threads are waiting on the condition variable, at least one
  of them is unblocked; which ones is the host's choice. \<open>chosen\<close> is that choice: the
  waiters among \<open>chosen\<close> are unblocked, and when there is none among them, the waiter
  that has waited longest. Every choice GLib allows is \<open>wake chosen\<close> for some
  \<open>chosen\<close>.
\<close>

definition wake :: "thread list \<Rightarrow> operation \<Rightarrow> operation" where
  "wake chosen o' =
     (let w = filter (\<lambda>t. t \<in> set chosen) (waiters o');
          w' = (if w = [] then take 1 (waiters o') else w)
      in o'\<lparr>waiters := filter (\<lambda>t. t \<notin> set w') (waiters o'), woken := woken o' @ w'\<rparr>)"

definition g_cond_signal :: "thread list \<Rightarrow> op_ref \<Rightarrow> platform \<Rightarrow> platform" where
  "g_cond_signal chosen r p =
     update_op r (wake chosen) (record_entry (CondSignal r (lock p)) p)"

text \<open>
  \<^verbatim>\<open>g_cond_wait\<close>, up to the point where the thread blocks: it joins the waiters
  and the lock is released.
\<close>

definition g_cond_wait :: "thread \<Rightarrow> op_ref \<Rightarrow> platform \<Rightarrow> platform" where
  "g_cond_wait t r p = g_mutex_unlock (update_op r (\<lambda>o'. o'\<lparr>waiters := waiters o' @ [t]\<rparr>) p)"

subsection \<open>Scheduling\<close>

definition GumV8MainContextOperation_new :: "work \<Rightarrow> GSource \<Rightarrow> operation" where
  "GumV8MainContextOperation_new f src =
     \<lparr>kind = MainContextOperation, func = f, source = Some src, completed = False,
      waiters = [], woken = [], job = Unscheduled, cancelling = 0, returned = []\<rparr>"

definition GumV8ThreadPoolOperation_new :: "work \<Rightarrow> operation" where
  "GumV8ThreadPoolOperation_new f =
     \<lparr>kind = ThreadPoolOperation, func = f, source = None, completed = False,
      waiters = [], woken = [], job = Unscheduled, cancelling = 0, returned = []\<rparr>"

text \<open>
  Modelled from the spec: the script scheduler (gumscriptscheduler, not among the
  sources) is the host's event-loop scheduler; it gives the main context that sources
  are attached to and a thread pool that jobs are pushed on. \<^verbatim>\<open>g_source_attach\<close>
  (after \<^verbatim>\<open>g_source_set_callback\<close>) and
  \<^verbatim>\<open>gum_script_scheduler_push_job_on_thread_pool\<close> hand the callback to the
  scheduler, which runs it later on a thread of its own.
\<close>

definition g_source_attach :: "op_ref \<Rightarrow> platform \<Rightarrow> platform" where
  "g_source_attach r p = update_op r (\<lambda>o'. o'\<lparr>job := Queued\<rparr>) p"

definition push_job_on_thread_pool :: "op_ref \<Rightarrow> platform \<Rightarrow> platform" where
  "push_job_on_thread_pool r p = update_op r (\<lambda>o'. o'\<lparr>job := Queued\<rparr>) p"

definition ScheduleOnJSThreadDelayed :: "nat \<Rightarrow> int \<Rightarrow> work \<Rightarrow> platform \<Rightarrow> op_ref \<times> platform" where
  "ScheduleOnJSThreadDelayed delay_in_milliseconds prio f p =
     (let src = \<lparr>stype = (if delay_in_milliseconds \<noteq> 0
                            then Timeout_source delay_in_milliseconds else Idle_source),
                 priority = prio, destroyed = False\<rparr>;
          (op, p1) = new_operation (GumV8MainContextOperation_new f src) p;
          p2 = g_mutex_unlock (js_operations_insert op (g_mutex_lock p1));
          p3 = g_source_attach op p2
      in (op, p3))"

definition ScheduleOnJSThread_priority :: "int \<Rightarrow> work \<Rightarrow> platform \<Rightarrow> op_ref \<times> platform" where
  "ScheduleOnJSThread_priority prio f p = ScheduleOnJSThreadDelayed 0 prio f p"

definition ScheduleOnThreadPool :: "work \<Rightarrow> platform \<Rightarrow> op_ref \<times> platform" where
  "ScheduleOnThreadPool f p =
     (let (op, p1) = new_operation (GumV8ThreadPoolOperation_new f) p;
          p2 = push_job_on_thread_pool op p1
      in (op, p2))"

text \<open>
  ScheduleOnThreadPoolDelayed has the return type of the other scheduling functions but
  no \<^verbatim>\<open>return\<close> statement: control leaves it at its closing brace. The model
  returns \<open>None\<close> for that, where a returned handle would be \<open>Some\<close>.
\<close>

definition ScheduleOnThreadPoolDelayed :: "nat \<Rightarrow> work \<Rightarrow> platform \<Rightarrow> op_ref option \<times> platform" where
  "ScheduleOnThreadPoolDelayed delay_in_milliseconds f p =
     (let (op, p1) = new_operation (GumV8ThreadPoolOperation_new f) p;
          (child_op, p2) =
            ScheduleOnJSThreadDelayed delay_in_milliseconds G_PRIORITY_HIGH
              (SubmitToThreadPool f) p1
      in (None, p2))"

subsection \<open>Clock readings and idle tasks\<close>

text \<open>
  A \<^verbatim>\<open>double\<close> is a real number here, and \<open>rnd\<close> stands for the rounding of a
  real to a \<^verbatim>\<open>double\<close> that follows every conversion and every arithmetic
  operation. Nothing is assumed of it in the definitions; the properties below ask
  what IEEE rounding gives: it is monotone, it leaves 0 alone and it leaves its own
  results alone. \<^verbatim>\<open>gint64\<close> values are integers (the clock counts microseconds
  since the host started), and \<^verbatim>\<open>/\<close> on them truncates towards zero.
\<close>

definition rounding :: "(real \<Rightarrow> real) \<Rightarrow> bool" where
  "rounding rnd = (mono rnd \<and> rnd 0 = 0 \<and> (\<forall>x. rnd (rnd x) = rnd x))"

definition g_get_monotonic_time :: "platform \<Rightarrow> int" where
  "g_get_monotonic_time p = clock p"

definition MonotonicallyIncreasingTime :: "(real \<Rightarrow> real) \<Rightarrow> platform \<Rightarrow> real" where
  "MonotonicallyIncreasingTime rnd p =
     (let delta = g_get_monotonic_time p - start_time p
      in rnd (rnd (real_of_int (delta sdiv 1000)) / 1000))"

text \<open>
  \<^verbatim>\<open>Run (IdleTask * task)\<close> of a runner: after entering the engine's scopes
  (which leave the platform alone) it computes the deadline and calls
  \<^verbatim>\<open>task->Run (deadline_in_seconds)\<close>. The task's own code is the engine's; the
  model records the call with the deadline.
\<close>

definition IdleTask_Run :: "nat \<Rightarrow> real \<Rightarrow> platform \<Rightarrow> platform" where
  "IdleTask_Run task deadline_in_seconds p = record_entry (IdleTaskRun task deadline_in_seconds) p"

definition GumV8ForegroundTaskRunner_Run_idle ::
  "(real \<Rightarrow> real) \<Rightarrow> runner_ref \<Rightarrow> nat \<Rightarrow> platform \<Rightarrow> platform" where
  "GumV8ForegroundTaskRunner_Run_idle rnd rn task p =
     (let deadline_in_seconds = rnd (MonotonicallyIncreasingTime rnd p + rnd (1 / 60))
      in IdleTask_Run task deadline_in_seconds p)"

subsection \<open>Perform, Cancel, Await\<close>

text \<open>
  Calling a callable: a caller's callable does not touch the platform, the closure of
  ScheduleOnThreadPoolDelayed calls ScheduleOnThreadPool and drops the handle, the
  closure of PostIdleTask calls \<^verbatim>\<open>Run (IdleTask *)\<close> of its runner.
\<close>

fun invoke :: "(real \<Rightarrow> real) \<Rightarrow> work \<Rightarrow> platform \<Rightarrow> platform" where
  "invoke rnd (UserFunc n) p = p"
| "invoke rnd (SubmitToThreadPool f) p = snd (ScheduleOnThreadPool f p)"
| "invoke rnd (RunIdleTask rn t) p = GumV8ForegroundTaskRunner_Run_idle rnd rn t p"

definition call_func :: "(real \<Rightarrow> real) \<Rightarrow> op_ref \<Rightarrow> platform \<Rightarrow> platform" where
  "call_func rnd r p = invoke rnd (func (ops p ! r)) (record_entry (FuncCalled r) p)"

text \<open>
  Perform is \<^verbatim>\<open>func ();\<close> followed by the block under the GumV8PlatformLocker. Other
  threads can run between the two, so each is a step of its own; \<open>Perform\<close> is the two
  in sequence. \<open>chosen\<close> is the host's choice at the signal.
\<close>

definition GumV8MainContextOperation_Perform_func :: "(real \<Rightarrow> real) \<Rightarrow> op_ref \<Rightarrow> platform \<Rightarrow> platform" where
  "GumV8MainContextOperation_Perform_func rnd r p = call_func rnd r p"

definition GumV8MainContextOperation_Perform_locked :: "thread list \<Rightarrow> op_ref \<Rightarrow> platform \<Rightarrow> platform" where
  "GumV8MainContextOperation_Perform_locked chosen r p =
     g_mutex_unlock (g_cond_signal chosen r (set_completed r (g_mutex_lock p)))"

definition GumV8MainContextOperation_Perform ::
  "(real \<Rightarrow> real) \<Rightarrow> thread list \<Rightarrow> op_ref \<Rightarrow> platform \<Rightarrow> platform" where
  "GumV8MainContextOperation_Perform rnd chosen r p =
     GumV8MainContextOperation_Perform_locked chosen r (GumV8MainContextOperation_Perform_func rnd r p)"

definition GumV8ThreadPoolOperation_Perform_func :: "(real \<Rightarrow> real) \<Rightarrow> op_ref \<Rightarrow> platform \<Rightarrow> platform" where
  "GumV8ThreadPoolOperation_Perform_func rnd r p = call_func rnd r p"

definition GumV8ThreadPoolOperation_Perform_locked :: "thread list \<Rightarrow> op_ref \<Rightarrow> platform \<Rightarrow> platform" where
  "GumV8ThreadPoolOperation_Perform_locked chosen r p =
     g_mutex_unlock (g_cond_signal chosen r (set_completed r (g_mutex_lock p)))"

definition GumV8ThreadPoolOperation_Perform ::
  "(real \<Rightarrow> real) \<Rightarrow> thread list \<Rightarrow> op_ref \<Rightarrow> platform \<Rightarrow> platform" where
  "GumV8ThreadPoolOperation_Perform rnd chosen r p =
     GumV8ThreadPoolOperation_Perform_locked chosen r (GumV8ThreadPoolOperation_Perform_func rnd r p)"

definition ReleaseMainContextOperation :: "op_ref \<Rightarrow> platform \<Rightarrow> platform" where
  "ReleaseMainContextOperation r p = g_mutex_unlock (js_operations_erase r (g_mutex_lock p))"

text \<open>
  \<^verbatim>\<open>g_source_destroy\<close>: nothing on a source already destroyed; otherwise the source
  is marked destroyed, so that it is never dispatched, and GLib drops its reference to
  the callback data. That was the last reference unless a dispatch of the source is in
  flight (which holds one until the callback has returned), and then the destroy
  notification, ReleaseMainContextOperation, runs.
\<close>

definition g_source_destroy :: "op_ref \<Rightarrow> platform \<Rightarrow> platform" where
  "g_source_destroy r p =
     (case source (ops p ! r) of
        None \<Rightarrow> p
      | Some src \<Rightarrow>
          if destroyed src then p
          else let p1 = update_op r (\<lambda>o'. o'\<lparr>source := Some (src\<lparr>destroyed := True\<rparr>)\<rparr>) p
               in if job (ops p ! r) = Running then p1 else ReleaseMainContextOperation r p1)"

text \<open>
  Cancel of a main context operation is \<^verbatim>\<open>g_source_destroy (source);\<close> followed by
  the block under the GumV8PlatformLocker; again two steps.
\<close>

definition GumV8MainContextOperation_Cancel_destroy :: "op_ref \<Rightarrow> platform \<Rightarrow> platform" where
  "GumV8MainContextOperation_Cancel_destroy r p = g_source_destroy r p"

definition GumV8MainContextOperation_Cancel_locked :: "thread list \<Rightarrow> op_ref \<Rightarrow> platform \<Rightarrow> platform" where
  "GumV8MainContextOperation_Cancel_locked chosen r p =
     g_mutex_unlock (g_cond_signal chosen r (set_completed r (g_mutex_lock p)))"

definition GumV8MainContextOperation_Cancel :: "thread list \<Rightarrow> op_ref \<Rightarrow> platform \<Rightarrow> platform" where
  "GumV8MainContextOperation_Cancel chosen r p =
     GumV8MainContextOperation_Cancel_locked chosen r
       (GumV8MainContextOperation_Cancel_destroy r p)"

definition GumV8ThreadPoolOperation_Cancel :: "op_ref \<Rightarrow> platform \<Rightarrow> platform" where
  "GumV8ThreadPoolOperation_Cancel r p = p"

text \<open>
  Await, the same code in both classes: under the lock,
  \<^verbatim>\<open>while (!completed) g_cond_wait (&cond, &platform->lock);\<close>. \<open>Await_test\<close> is the
  loop's test with the lock held: either the loop is left, the locker releases the
  lock and Await returns, or the thread blocks in \<^verbatim>\<open>g_cond_wait\<close>. \<open>Await_enter\<close> is
  the call up to there; \<open>Await_resume\<close> is a thread coming back from
  \<^verbatim>\<open>g_cond_wait\<close> (signalled or not) with the lock held, at the loop's test again.
\<close>

definition Await_test :: "thread \<Rightarrow> op_ref \<Rightarrow> platform \<Rightarrow> platform" where
  "Await_test t r p =
     (if \<not> completed (ops p ! r) then g_cond_wait t r p
      else g_mutex_unlock (update_op r (\<lambda>o'. o'\<lparr>returned := returned o' @ [t]\<rparr>) p))"

definition Await_enter :: "thread \<Rightarrow> op_ref \<Rightarrow> platform \<Rightarrow> platform" where
  "Await_enter t r p = Await_test t r (g_mutex_lock p)"

definition Await_resume :: "thread \<Rightarrow> op_ref \<Rightarrow> platform \<Rightarrow> platform" where
  "Await_resume t r p =
     Await_test t r
       (g_mutex_lock
          (update_op r (\<lambda>o'. o'\<lparr>waiters := removeAll t (waiters o'),
                                 woken := removeAll t (woken o')\<rparr>) p))"

subsection \<open>Runners\<close>

text \<open>
  \<^verbatim>\<open>foreground_runners[isolate]\<close>: the subscript of a map inserts a null pointer
  under a key that is absent. The result is the pointer found, the map, and whether
  the map was changed.
\<close>

definition subscript :: "('k \<rightharpoonup> 'v option) \<Rightarrow> 'k \<Rightarrow> 'v option \<times> ('k \<rightharpoonup> 'v option) \<times> bool" where
  "subscript m k = (case m k of None \<Rightarrow> (None, m(k \<mapsto> None), True) | Some v \<Rightarrow> (v, m, False))"

definition new_runner :: "isolate \<Rightarrow> platform \<Rightarrow> runner_ref \<times> platform" where
  "new_runner isolate p = (length (runners p), p\<lparr>runners := runners p @ [isolate]\<rparr>)"

text \<open>
  GetForegroundTaskRunner takes no lock, so other threads can run between its
  statements. \<open>GetForegroundTaskRunner_lookup\<close> is its first statement,
  \<^verbatim>\<open>auto runner = foreground_runners[isolate];\<close>, and
  \<open>GetForegroundTaskRunner_rest\<close> the rest of the body with the value of
  \<^verbatim>\<open>runner\<close> the first statement found; the function is the two in sequence.
\<close>

definition GetForegroundTaskRunner_lookup ::
  "isolate \<Rightarrow> platform \<Rightarrow> runner_ref option \<times> platform" where
  "GetForegroundTaskRunner_lookup isolate p =
     (let (runner, m1, inserted) = subscript (foreground_runners p) isolate;
          p1 = (if inserted then record_write ForegroundRunners p else p)
                 \<lparr>foreground_runners := m1\<rparr>
      in (runner, p1))"

definition GetForegroundTaskRunner_rest ::
  "isolate \<Rightarrow> runner_ref option \<Rightarrow> platform \<Rightarrow> runner_ref option \<times> platform" where
  "GetForegroundTaskRunner_rest isolate runner p =
     (if runner = None then
        let (rn, p2) = new_runner isolate p;
            p3 = (record_write ForegroundRunners p2)
                   \<lparr>foreground_runners := (foreground_runners p2)(isolate \<mapsto> Some rn)\<rparr>
        in (Some rn, p3)
      else (runner, p))"

definition GetForegroundTaskRunner :: "isolate \<Rightarrow> platform \<Rightarrow> runner_ref option \<times> platform" where
  "GetForegroundTaskRunner isolate p =
     (let (runner, p1) = GetForegroundTaskRunner_lookup isolate p
      in GetForegroundTaskRunner_rest isolate runner p1)"

definition GumV8ForegroundTaskRunner_PostIdleTask :: "runner_ref \<Rightarrow> nat \<Rightarrow> platform \<Rightarrow> platform" where
  "GumV8ForegroundTaskRunner_PostIdleTask rn task p =
     snd (ScheduleOnJSThread_priority G_PRIORITY_LOW (RunIdleTask rn task) p)"

definition GumV8ForegroundTaskRunner_IdleTasksEnabled :: bool where
  "GumV8ForegroundTaskRunner_IdleTasksEnabled = True"


subsection \<open>The schedulers and the threads\<close>

text \<open>
  The main loop dispatching the source of an operation runs
  PerformMainContextOperation, which calls Perform and returns FALSE. The first step is
  the call up to the end of \<^verbatim>\<open>func ()\<close>. The second is the rest: the locked block
  of Perform, then the callback returns FALSE, for which GLib destroys the source,
  and the dispatch drops the last reference to the callback data, so that
  ReleaseMainContextOperation runs.
\<close>

definition PerformMainContextOperation_begin ::
  "(real \<Rightarrow> real) \<Rightarrow> op_ref \<Rightarrow> platform \<Rightarrow> platform" where
  "PerformMainContextOperation_begin rnd r p =
     GumV8MainContextOperation_Perform_func rnd r (update_op r (\<lambda>o'. o'\<lparr>job := Running\<rparr>) p)"

definition PerformMainContextOperation_end :: "thread list \<Rightarrow> op_ref \<Rightarrow> platform \<Rightarrow> platform" where
  "PerformMainContextOperation_end chosen r p =
     (let p1 = GumV8MainContextOperation_Perform_locked chosen r p;
          p2 = update_op r
                 (\<lambda>o'. o'\<lparr>job := Finished,
                          source := map_option (\<lambda>src. src\<lparr>destroyed := True\<rparr>) (source o')\<rparr>) p1
      in ReleaseMainContextOperation r p2)"

text \<open>
  Modelled from the spec: a job pushed on the thread pool is run by one worker thread,
  once, and nothing can take it back. The worker runs PerformThreadPoolOperation, which
  calls Perform; ReleaseThreadPoolOperation then deletes the job's pointer to the
  operation, which changes nothing in the platform.
\<close>

definition PerformThreadPoolOperation_begin ::
  "(real \<Rightarrow> real) \<Rightarrow> op_ref \<Rightarrow> platform \<Rightarrow> platform" where
  "PerformThreadPoolOperation_begin rnd r p =
     GumV8ThreadPoolOperation_Perform_func rnd r (update_op r (\<lambda>o'. o'\<lparr>job := Running\<rparr>) p)"

definition PerformThreadPoolOperation_end :: "thread list \<Rightarrow> op_ref \<Rightarrow> platform \<Rightarrow> platform" where
  "PerformThreadPoolOperation_end chosen r p =
     update_op r (\<lambda>o'. o'\<lparr>job := Finished\<rparr>)
       (GumV8ThreadPoolOperation_Perform_locked chosen r p)"

text \<open>
  What can happen to a platform, one step at a time: a thread calls one of the
  platform's functions or resumes one at a point where it had to let the others run; a
  scheduler runs a callback; the clock advances. A step that signals a condition
  variable carries the host's choice of the waiters it unblocks.
\<close>

datatype event =
    Call_ScheduleOnJSThreadDelayed nat int work
  | Call_ScheduleOnThreadPool work
  | Call_ScheduleOnThreadPoolDelayed nat work
  | Call_GetForegroundTaskRunner thread isolate
  | GetForegroundTaskRunner_continues thread
  | Call_PostIdleTask runner_ref nat
  | Call_Cancel op_ref
  | Cancel_continues op_ref "thread list"
  | Call_Await thread op_ref
  | Wakeup thread op_ref
  | Source_dispatched op_ref
  | Job_started op_ref
  | Perform_continues op_ref "thread list"
  | Clock_tick nat

definition in_cond_wait :: "thread \<Rightarrow> platform \<Rightarrow> bool" where
  "in_cond_wait t p = list_ex (\<lambda>o'. t \<in> set (waiters o') \<or> t \<in> set (woken o')) (ops p)"

text \<open>
  \<open>step rnd e p\<close> is \<open>None\<close> when \<open>e\<close> cannot happen in \<open>p\<close>: a handle that does not
  exist, a source that is not waiting to be dispatched or is destroyed, a job that is
  not queued, a continuation of a call that is not in flight, a thread that is blocked
  or inside GetForegroundTaskRunner calling again, a wakeup of a thread that is not in
  \<^verbatim>\<open>g_cond_wait\<close>. Cancel is dispatched on the class of the operation, as the
  virtual call is. \<open>rnd\<close> is the rounding of doubles.
\<close>

fun step :: "(real \<Rightarrow> real) \<Rightarrow> event \<Rightarrow> platform \<Rightarrow> platform option" where
  "step rnd (Call_ScheduleOnJSThreadDelayed d prio f) p =
     Some (snd (ScheduleOnJSThreadDelayed d prio f p))"
| "step rnd (Call_ScheduleOnThreadPool f) p = Some (snd (ScheduleOnThreadPool f p))"
| "step rnd (Call_ScheduleOnThreadPoolDelayed d f) p =
     Some (snd (ScheduleOnThreadPoolDelayed d f p))"
| "step rnd (Call_GetForegroundTaskRunner t isolate) p =
     (if runner_calls p t = None \<and> \<not> in_cond_wait t p then
        (let (runner, p1) = GetForegroundTaskRunner_lookup isolate p
         in Some (p1\<lparr>runner_calls := (runner_calls p1)(t \<mapsto> (isolate, runner))\<rparr>))
      else None)"
| "step rnd (GetForegroundTaskRunner_continues t) p =
     (case runner_calls p t of
        None \<Rightarrow> None
      | Some (isolate, runner) \<Rightarrow>
          (let (result, p1) = GetForegroundTaskRunner_rest isolate runner p
           in Some (p1\<lparr>runner_calls := (runner_calls p1)(t := None),
                       runner_returns := runner_returns p1 @ [(t, isolate, result)]\<rparr>)))"
| "step rnd (Call_PostIdleTask rn task) p =
     (if rn < length (runners p) then Some (GumV8ForegroundTaskRunner_PostIdleTask rn task p)
      else None)"
| "step rnd (Call_Cancel r) p =
     (if r < length (ops p) then
        (case kind (ops p ! r) of
           MainContextOperation \<Rightarrow>
             Some (update_op r (\<lambda>o'. o'\<lparr>cancelling := cancelling o' + 1\<rparr>)
                     (GumV8MainContextOperation_Cancel_destroy r p))
         | ThreadPoolOperation \<Rightarrow> Some (GumV8ThreadPoolOperation_Cancel r p))
      else None)"
| "step rnd (Cancel_continues r chosen) p =
     (if r < length (ops p) \<and> kind (ops p ! r) = MainContextOperation
         \<and> 0 < cancelling (ops p ! r) then
        Some (update_op r (\<lambda>o'. o'\<lparr>cancelling := cancelling o' - 1\<rparr>)
                (GumV8MainContextOperation_Cancel_locked chosen r p))
      else None)"
| "step rnd (Call_Await t r) p =
     (if r < length (ops p) \<and> \<not> in_cond_wait t p \<and> runner_calls p t = None
      then Some (Await_enter t r p) else None)"
| "step rnd (Wakeup t r) p =
     (if r < length (ops p)
         \<and> (t \<in> set (waiters (ops p ! r)) \<or> t \<in> set (woken (ops p ! r))) then
        Some (Await_resume t r p)
      else None)"
| "step rnd (Source_dispatched r) p =
     (if r < length (ops p) \<and> kind (ops p ! r) = MainContextOperation
         \<and> job (ops p ! r) = Queued
         \<and> (case source (ops p ! r) of None \<Rightarrow> False | Some src \<Rightarrow> \<not> destroyed src) then
        Some (PerformMainContextOperation_begin rnd r p)
      else None)"
| "step rnd (Job_started r) p =
     (if r < length (ops p) \<and> kind (ops p ! r) = ThreadPoolOperation
         \<and> job (ops p ! r) = Queued then
        Some (PerformThreadPoolOperation_begin rnd r p)
      else None)"
| "step rnd (Perform_continues r chosen) p =
     (if r < length (ops p) \<and> job (ops p ! r) = Running then
        (case kind (ops p ! r) of
           MainContextOperation \<Rightarrow> Some (PerformMainContextOperation_end chosen r p)
         | ThreadPoolOperation \<Rightarrow> Some (PerformThreadPoolOperation_end chosen r p))
      else None)"
| "step rnd (Clock_tick d) p = Some (p\<lparr>clock := clock p + int d\<rparr>)"

fun run :: "(real \<Rightarrow> real) \<Rightarrow> event list \<Rightarrow> platform \<Rightarrow> platform option" where
  "run rnd [] p = Some p"
| "run rnd (e # es) p = (case step rnd e p of None \<Rightarrow> None | Some p' \<Rightarrow> run rnd es p')"

text \<open>How many times the \<open>func\<close> of an operation has been called.\<close>

definition calls :: "op_ref \<Rightarrow> platform \<Rightarrow> nat" where
  "calls r p = count_list (trace p) (FuncCalled r)"

subsection \<open>Notions used to state the properties\<close>

text \<open>
  The operations that calling a callable adds to the heap, and what it adds to the
  record.
\<close>

definition spawned :: "work \<Rightarrow> operation list" where
  "spawned f = (case f of SubmitToThreadPool g \<Rightarrow> [(GumV8ThreadPoolOperation_new g)\<lparr>job := Queued\<rparr>]
              | _ \<Rightarrow> [])"

definition reported :: "(real \<Rightarrow> real) \<Rightarrow> work \<Rightarrow> platform \<Rightarrow> entry list" where
  "reported rnd f p =
     (case f of
        RunIdleTask rn t \<Rightarrow>
          [IdleTaskRun t (rnd (MonotonicallyIncreasingTime rnd p + rnd (1 / 60)))]
      | _ \<Rightarrow> [])"

text \<open>An operation whose callback the scheduler has started.\<close>

definition started :: "operation \<Rightarrow> bool" where
  "started x = (job x = Running \<or> job x = Finished)"

text \<open>
  How many steps of a run change the \<open>completed\<close> flag of an operation (in either
  direction).
\<close>

fun flips :: "(real \<Rightarrow> real) \<Rightarrow> op_ref \<Rightarrow> event list \<Rightarrow> platform \<Rightarrow> nat" where
  "flips rnd r [] p = 0"
| "flips rnd r (e # es) p =
     (case step rnd e p of
        None \<Rightarrow> 0
      | Some p' \<Rightarrow>
          (if r < length (ops p) \<and> completed (ops p ! r) \<noteq> completed (ops p' ! r) then 1 else 0)
            + flips rnd r es p')"

text \<open>
  What holds of every operation of a platform: its callback has returned only if it is
  completed; a main context operation has a source; and if that source is destroyed
  while the operation is not completed, a call of Cancel is on its way to the lock.
\<close>

definition op_inv :: "operation \<Rightarrow> bool" where
  "op_inv x =
     ((job x = Finished \<longrightarrow> completed x) \<and>
      (kind x = MainContextOperation \<longrightarrow> source x \<noteq> None) \<and>
      (\<forall>src. source x = Some src \<longrightarrow> destroyed src \<longrightarrow> \<not> completed x \<longrightarrow> 0 < cancelling x))"

text \<open>An entry of the record that is not a store to guarded state without the lock.\<close>

fun lock_respected :: "entry \<Rightarrow> bool" where
  "lock_respected (Write g held) = held"
| "lock_respected (FuncCalled r) = True"
| "lock_respected (CondSignal r held) = True"
| "lock_respected (IdleTaskRun t d) = True"

text \<open>
  The registry and the heap of runners agree: an isolate is registered with a runner
  exactly when that runner exists and is the runner of that isolate.
\<close>

definition registry_inv :: "platform \<Rightarrow> bool" where
  "registry_inv p =
     (\<forall>i rn. foreground_runners p i = Some (Some rn) \<longleftrightarrow>
              rn < length (runners p) \<and> runners p ! rn = i)"


section \<open>Auxiliary facts\<close>

lemmas prim_defs = g_mutex_lock_def g_mutex_unlock_def record_entry_def record_write_def
  update_op_def new_operation_def set_completed_def js_operations_insert_def
  js_operations_erase_def g_cond_signal_def g_cond_wait_def g_source_attach_def
  push_job_on_thread_pool_def new_runner_def

lemma wake_simps [simp]:
  "kind (wake ch x) = kind x" "func (wake ch x) = func x" "source (wake ch x) = source x"
  "completed (wake ch x) = completed x" "job (wake ch x) = job x"
  "cancelling (wake ch x) = cancelling x" "returned (wake ch x) = returned x"
  by (simp_all add: wake_def Let_def)

lemma MonotonicallyIncreasingTime_frame [simp]:
  "MonotonicallyIncreasingTime rnd (p\<lparr>trace := tr\<rparr>) = MonotonicallyIncreasingTime rnd p"
  "MonotonicallyIncreasingTime rnd (p\<lparr>ops := os\<rparr>) = MonotonicallyIncreasingTime rnd p"
  "MonotonicallyIncreasingTime rnd (p\<lparr>lock := l\<rparr>) = MonotonicallyIncreasingTime rnd p"
  by (simp_all add: MonotonicallyIncreasingTime_def g_get_monotonic_time_def)

lemma reported_frame [simp]:
  "reported rnd f (p\<lparr>trace := tr\<rparr>) = reported rnd f p"
  "reported rnd f (p\<lparr>ops := os\<rparr>) = reported rnd f p"
  "reported rnd f (p\<lparr>lock := l\<rparr>) = reported rnd f p"
  by (simp_all add: reported_def split: work.splits)

lemma reported_entries [simp]:
  "count_list (reported rnd f p) (FuncCalled r) = 0"
  "x \<in> set (reported rnd f p) \<Longrightarrow> lock_respected x"
  by (auto simp: reported_def split: work.splits)

lemma ScheduleOnJSThreadDelayed_eq:
  "ScheduleOnJSThreadDelayed d prio f p =
     (length (ops p),
      p\<lparr>lock := False,
        ops := ops p @ [(GumV8MainContextOperation_new f
                 \<lparr>stype = (if d \<noteq> 0 then Timeout_source d else Idle_source),
                  priority = prio, destroyed = False\<rparr>)\<lparr>job := Queued\<rparr>],
        js_operations := insert (length (ops p)) (js_operations p),
        trace := trace p @ [Write JsOperations True]\<rparr>)"
  by (simp add: ScheduleOnJSThreadDelayed_def prim_defs Let_def)

lemma ScheduleOnThreadPool_eq:
  "ScheduleOnThreadPool f p =
     (length (ops p), p\<lparr>ops := ops p @ [(GumV8ThreadPoolOperation_new f)\<lparr>job := Queued\<rparr>]\<rparr>)"
  by (simp add: ScheduleOnThreadPool_def prim_defs Let_def)

lemma ScheduleOnThreadPoolDelayed_eq:
  "ScheduleOnThreadPoolDelayed d f p =
     (None,
      p\<lparr>lock := False,
        ops := ops p @ [GumV8ThreadPoolOperation_new f,
                 (GumV8MainContextOperation_new (SubmitToThreadPool f)
                 \<lparr>stype = (if d \<noteq> 0 then Timeout_source d else Idle_source),
                  priority = G_PRIORITY_HIGH, destroyed = False\<rparr>)\<lparr>job := Queued\<rparr>],
        js_operations := insert (Suc (length (ops p))) (js_operations p),
        trace := trace p @ [Write JsOperations True]\<rparr>)"
  by (simp add: ScheduleOnThreadPoolDelayed_def ScheduleOnJSThreadDelayed_eq prim_defs Let_def)

lemma locked_block_eq:
  "g_mutex_unlock (g_cond_signal ch r (set_completed r (g_mutex_lock p))) =
     p\<lparr>lock := False,
       ops := (ops p)[r := wake ch ((ops p ! r)\<lparr>completed := True\<rparr>)],
       trace := trace p @ [Write (CompletedFlag r) True, CondSignal r True]\<rparr>"
  by (cases "r < length (ops p)") (simp_all add: prim_defs list_update_beyond)

lemma ReleaseMainContextOperation_eq:
  "ReleaseMainContextOperation r p =
     p\<lparr>lock := False, js_operations := js_operations p - {r},
       trace := trace p @ [Write JsOperations True]\<rparr>"
  by (simp add: ReleaseMainContextOperation_def prim_defs)

lemma call_func_eq:
  "call_func rnd r p =
     p\<lparr>ops := ops p @ spawned (func (ops p ! r)),
       trace := trace p @ [FuncCalled r] @ reported rnd (func (ops p ! r)) p\<rparr>"
  by (cases "func (ops p ! r)")
    (simp_all add: call_func_def ScheduleOnThreadPool_eq prim_defs spawned_def reported_def
      GumV8ForegroundTaskRunner_Run_idle_def IdleTask_Run_def)

lemma Await_test_eq:
  "Await_test t r p =
     p\<lparr>lock := False,
       ops := (ops p)[r := (if completed (ops p ! r)
                           then (ops p ! r)\<lparr>returned := returned (ops p ! r) @ [t]\<rparr>
                           else (ops p ! r)\<lparr>waiters := waiters (ops p ! r) @ [t]\<rparr>)]\<rparr>"
  by (simp add: Await_test_def prim_defs)

lemma Await_enter_eq:
  "Await_enter t r p =
     p\<lparr>lock := False,
       ops := (ops p)[r := (if completed (ops p ! r)
                           then (ops p ! r)\<lparr>returned := returned (ops p ! r) @ [t]\<rparr>
                           else (ops p ! r)\<lparr>waiters := waiters (ops p ! r) @ [t]\<rparr>)]\<rparr>"
  by (simp add: Await_enter_def Await_test_eq prim_defs)

lemma Await_resume_eq:
  "Await_resume t r p =
     p\<lparr>lock := False,
       ops := (ops p)[r := (if completed (ops p ! r)
                           then (ops p ! r)\<lparr>waiters := removeAll t (waiters (ops p ! r)),
                                 woken := removeAll t (woken (ops p ! r)),
                                 returned := returned (ops p ! r) @ [t]\<rparr>
                           else (ops p ! r)\<lparr>woken := removeAll t (woken (ops p ! r)),
                                 waiters := removeAll t (waiters (ops p ! r)) @ [t]\<rparr>)]\<rparr>"
  by (cases "r < length (ops p)")
    (simp_all add: Await_resume_def Await_test_eq prim_defs list_update_beyond)

lemma Perform_begin_eq:
  "PerformMainContextOperation_begin rnd r p =
     p\<lparr>ops := (ops p)[r := (ops p ! r)\<lparr>job := Running\<rparr>]
              @ spawned (func ((ops p)[r := (ops p ! r)\<lparr>job := Running\<rparr>] ! r)),
       trace := trace p @ [FuncCalled r]
              @ reported rnd (func ((ops p)[r := (ops p ! r)\<lparr>job := Running\<rparr>] ! r)) p\<rparr>"
  "PerformThreadPoolOperation_begin rnd r p =
     p\<lparr>ops := (ops p)[r := (ops p ! r)\<lparr>job := Running\<rparr>]
              @ spawned (func ((ops p)[r := (ops p ! r)\<lparr>job := Running\<rparr>] ! r)),
       trace := trace p @ [FuncCalled r]
              @ reported rnd (func ((ops p)[r := (ops p ! r)\<lparr>job := Running\<rparr>] ! r)) p\<rparr>"
  by (simp_all add: PerformMainContextOperation_begin_def PerformThreadPoolOperation_begin_def
     GumV8MainContextOperation_Perform_func_def GumV8ThreadPoolOperation_Perform_func_def
     call_func_eq update_op_def)

lemma Perform_end_eq:
  "PerformMainContextOperation_end ch r p =
     p\<lparr>lock := False,
       ops := (ops p)[r := (wake ch ((ops p ! r)\<lparr>completed := True\<rparr>))
            \<lparr>job := Finished,
             source := map_option (\<lambda>src. src\<lparr>destroyed := True\<rparr>) (source (ops p ! r))\<rparr>],
       js_operations := js_operations p - {r},
       trace := trace p @ [Write (CompletedFlag r) True, CondSignal r True, Write JsOperations True]\<rparr>"
  "PerformThreadPoolOperation_end ch r p =
     p\<lparr>lock := False,
       ops := (ops p)[r := (wake ch ((ops p ! r)\<lparr>completed := True\<rparr>))\<lparr>job := Finished\<rparr>],
       trace := trace p @ [Write (CompletedFlag r) True, CondSignal r True]\<rparr>"
  by (cases "r < length (ops p)";
      simp add: PerformMainContextOperation_end_def PerformThreadPoolOperation_end_def
     GumV8MainContextOperation_Perform_locked_def GumV8ThreadPoolOperation_Perform_locked_def
     locked_block_eq ReleaseMainContextOperation_eq update_op_def list_update_beyond)+

lemma Cancel_locked_eq:
  "GumV8MainContextOperation_Cancel_locked ch r p =
     p\<lparr>lock := False,
       ops := (ops p)[r := wake ch ((ops p ! r)\<lparr>completed := True\<rparr>)],
       trace := trace p @ [Write (CompletedFlag r) True, CondSignal r True]\<rparr>"
  by (simp add: GumV8MainContextOperation_Cancel_locked_def locked_block_eq)

lemma g_source_destroy_eq:
  "g_source_destroy r p =
     (case source (ops p ! r) of
        None \<Rightarrow> p
      | Some src \<Rightarrow>
          if destroyed src then p
          else if job (ops p ! r) = Running
            then p\<lparr>ops := (ops p)[r := (ops p ! r)\<lparr>source := Some (src\<lparr>destroyed := True\<rparr>)\<rparr>]\<rparr>
            else p\<lparr>lock := False,
                   ops := (ops p)[r := (ops p ! r)\<lparr>source := Some (src\<lparr>destroyed := True\<rparr>)\<rparr>],
                   js_operations := js_operations p - {r},
                   trace := trace p @ [Write JsOperations True]\<rparr>)"
  by (simp add: g_source_destroy_def ReleaseMainContextOperation_eq prim_defs Let_def
      split: option.splits)

lemma g_source_destroy_obs [simp]:
  "length (ops (g_source_destroy r p)) = length (ops p)"
  "kind (ops (g_source_destroy r p) ! r') = kind (ops p ! r')"
  "func (ops (g_source_destroy r p) ! r') = func (ops p ! r')"
  "completed (ops (g_source_destroy r p) ! r') = completed (ops p ! r')"
  "job (ops (g_source_destroy r p) ! r') = job (ops p ! r')"
  "returned (ops (g_source_destroy r p) ! r') = returned (ops p ! r')"
  "waiters (ops (g_source_destroy r p) ! r') = waiters (ops p ! r')"
  "woken (ops (g_source_destroy r p) ! r') = woken (ops p ! r')"
  "cancelling (ops (g_source_destroy r p) ! r') = cancelling (ops p ! r')"
  "count_list (trace (g_source_destroy r p)) (FuncCalled x) = count_list (trace p) (FuncCalled x)"
  by (cases "r < length (ops p)"; cases "r' = r";
      simp add: g_source_destroy_eq list_update_beyond split: option.splits)+

lemma GetForegroundTaskRunner_lookup_obs [simp]:
  "ops (snd (GetForegroundTaskRunner_lookup isolate p)) = ops p"
  "count_list (trace (snd (GetForegroundTaskRunner_lookup isolate p))) (FuncCalled x) =
     count_list (trace p) (FuncCalled x)"
  "lock (snd (GetForegroundTaskRunner_lookup isolate p)) = lock p"
  by (simp_all add: GetForegroundTaskRunner_lookup_def subscript_def prim_defs Let_def
      split: option.splits)

lemma GetForegroundTaskRunner_rest_obs [simp]:
  "ops (snd (GetForegroundTaskRunner_rest isolate runner p)) = ops p"
  "count_list (trace (snd (GetForegroundTaskRunner_rest isolate runner p))) (FuncCalled x) =
     count_list (trace p) (FuncCalled x)"
  "lock (snd (GetForegroundTaskRunner_rest isolate runner p)) = lock p"
  by (simp_all add: GetForegroundTaskRunner_rest_def prim_defs Let_def)

lemmas step_eqs = ScheduleOnJSThreadDelayed_eq ScheduleOnThreadPool_eq
  ScheduleOnThreadPoolDelayed_eq Await_enter_eq Await_resume_eq Perform_begin_eq Perform_end_eq
  Cancel_locked_eq ScheduleOnJSThread_priority_def
  GumV8MainContextOperation_Cancel_destroy_def
  GumV8ThreadPoolOperation_Cancel_def
  GumV8ForegroundTaskRunner_PostIdleTask_def
  update_op_def case_prod_unfold Let_def

lemma new_operation_obs [simp]:
  "kind (GumV8MainContextOperation_new f src) = MainContextOperation"
  "kind (GumV8ThreadPoolOperation_new f) = ThreadPoolOperation"
  "\<not> completed (GumV8MainContextOperation_new f src)"
  "\<not> completed (GumV8ThreadPoolOperation_new f)"
  "returned (GumV8MainContextOperation_new f src) = []"
  "returned (GumV8ThreadPoolOperation_new f) = []"
  "job (GumV8MainContextOperation_new f src) = Unscheduled"
  "job (GumV8ThreadPoolOperation_new f) = Unscheduled"
  "func (GumV8MainContextOperation_new f src) = f"
  "func (GumV8ThreadPoolOperation_new f) = f"
  "source (GumV8MainContextOperation_new f src) = Some src"
  "source (GumV8ThreadPoolOperation_new f) = None"
  "cancelling (GumV8MainContextOperation_new f src) = 0"
  "cancelling (GumV8ThreadPoolOperation_new f) = 0"
  by (simp_all add: GumV8MainContextOperation_new_def GumV8ThreadPoolOperation_new_def)

lemma run_snoc:
  "run rnd (es @ [e]) p = (case run rnd es p of None \<Rightarrow> None | Some p1 \<Rightarrow> step rnd e p1)"
  by (induction es arbitrary: p) (auto split: option.splits)

lemma step_length: "step rnd e p = Some p' \<Longrightarrow> length (ops p) \<le> length (ops p')"
  by (cases e)
    (auto simp: step_eqs split: if_splits op_kind.splits option.splits)

lemma step_completed:
  "step rnd e p = Some p' \<Longrightarrow> r < length (ops p) \<Longrightarrow> completed (ops p ! r) \<Longrightarrow>
   completed (ops p' ! r)"
  by (cases e)
    (auto simp: step_eqs nth_append nth_list_update
      split: if_splits op_kind.splits option.splits)

lemma step_kind:
  "step rnd e p = Some p' \<Longrightarrow> r < length (ops p) \<Longrightarrow> kind (ops p' ! r) = kind (ops p ! r)"
  by (cases e)
    (auto simp: step_eqs nth_append nth_list_update
      split: if_splits op_kind.splits option.splits)

lemma step_func:
  "step rnd e p = Some p' \<Longrightarrow> r < length (ops p) \<Longrightarrow> func (ops p' ! r) = func (ops p ! r)"
  by (cases e)
    (auto simp: step_eqs nth_append nth_list_update
      split: if_splits op_kind.splits option.splits)

lemma started_simps [simp]:
  "started (x\<lparr>job := Running\<rparr>)" "started (x\<lparr>job := Finished\<rparr>)" "\<not> started (x\<lparr>job := Queued\<rparr>)"
  "started (wake ch x) = started x"
  "started (x\<lparr>completed := c\<rparr>) = started x"
  "started (x\<lparr>source := sr\<rparr>) = started x"
  "started (x\<lparr>waiters := ws\<rparr>) = started x"
  "started (x\<lparr>woken := ws\<rparr>) = started x"
  "started (x\<lparr>returned := ws\<rparr>) = started x"
  "started (x\<lparr>cancelling := n\<rparr>) = started x"
  "\<not> started (GumV8ThreadPoolOperation_new f)"
  "\<not> started (GumV8MainContextOperation_new f src)"
  by (simp_all add: started_def)

lemma started_job [simp]:
  "job x = Running \<Longrightarrow> started x" "job x = Finished \<Longrightarrow> started x"
  "job x = Queued \<Longrightarrow> \<not> started x" "job x = Unscheduled \<Longrightarrow> \<not> started x"
  by (simp_all add: started_def)

lemma started_g_source_destroy [simp]:
  "started (ops (g_source_destroy r p) ! r') = started (ops p ! r')"
  by (simp add: started_def)

lemma spawned_nth:
  "i < length (spawned f) \<Longrightarrow>
     \<not> started (spawned f ! i) \<and> returned (spawned f ! i) = [] \<and> \<not> completed (spawned f ! i)"
  by (cases f) (simp_all add: spawned_def started_def)

lemma step_calls_eq:
  "step rnd e p = Some p' \<Longrightarrow>
   calls r p' = calls r p + (if e = Source_dispatched r \<or> e = Job_started r then 1 else 0)"
  by (cases e) (auto simp: calls_def step_eqs split: if_splits op_kind.splits option.splits)

lemma step_started_old:
  "step rnd e p = Some p' \<Longrightarrow> r < length (ops p) \<Longrightarrow>
   started (ops p' ! r) = (started (ops p ! r) \<or> e = Source_dispatched r \<or> e = Job_started r)"
  by (cases e)
     (auto simp: step_eqs nth_append nth_list_update split: if_splits op_kind.splits option.splits)

lemma step_started_new:
  "step rnd e p = Some p' \<Longrightarrow> length (ops p) \<le> r \<Longrightarrow> r < length (ops p') \<Longrightarrow>
   \<not> started (ops p' ! r)"
  by (cases e)
     (auto simp: step_eqs nth_append nth_list_update less_Suc_eq nth_Cons' spawned_nth
       split: if_splits op_kind.splits option.splits)

lemma step_begin_enabled:
  "step rnd e p = Some p' \<Longrightarrow> e = Source_dispatched r \<or> e = Job_started r \<Longrightarrow>
   r < length (ops p) \<and> \<not> started (ops p ! r)"
  by (auto simp: started_def split: if_splits)

lemma calls_new [simp]: "calls r (GumV8Platform_new now) = 0" "ops (GumV8Platform_new now) = []"
  "lock (GumV8Platform_new now) = False" "trace (GumV8Platform_new now) = []"
  by (simp_all add: calls_def GumV8Platform_new_def)

lemma run_calls:
  "run rnd es (GumV8Platform_new now) = Some p \<Longrightarrow>
   calls r p = (if r < length (ops p) \<and> started (ops p ! r) then 1 else 0)"
proof (induction es arbitrary: p r rule: rev_induct)
  case Nil
  then show ?case by auto
next
  case (snoc e es)
  then obtain p1 where p1: "run rnd es (GumV8Platform_new now) = Some p1"
    and st: "step rnd e p1 = Some p"
    by (auto simp: run_snoc split: option.splits)
  note IH = snoc.IH [OF p1, of r]
  show ?case
  proof (cases "e = Source_dispatched r \<or> e = Job_started r")
    case True
    with step_begin_enabled [OF st] have r: "r < length (ops p1)" "\<not> started (ops p1 ! r)"
      by auto
    with step_length [OF st] have "r < length (ops p)" by simp
    with True r IH step_calls_eq [OF st, of r] step_started_old [OF st r(1)]
    show ?thesis by simp
  next
    case False
    show ?thesis
    proof (cases "r < length (ops p1)")
      case True
      with step_length [OF st] have "r < length (ops p)" by simp
      with True False IH step_calls_eq [OF st, of r] step_started_old [OF st True]
      show ?thesis by simp
    next
      case False
      with \<open>\<not> (e = Source_dispatched r \<or> e = Job_started r)\<close> IH step_calls_eq [OF st, of r]
        step_started_new [OF st, of r]
      show ?thesis by auto
    qed
  qed
qed

lemma run_completed:
  "run rnd es p = Some p' \<Longrightarrow> r < length (ops p) \<Longrightarrow> completed (ops p ! r) \<Longrightarrow>
   r < length (ops p') \<and> completed (ops p' ! r)"
proof (induction es arbitrary: p)
  case Nil
  then show ?case by simp
next
  case (Cons e es)
  then obtain p1 where st: "step rnd e p = Some p1" and rest: "run rnd es p1 = Some p'"
    by (auto split: option.splits)
  from step_length [OF st] Cons.prems(2) have "r < length (ops p1)" by simp
  moreover from step_completed [OF st Cons.prems(2,3)] have "completed (ops p1 ! r)" .
  ultimately show ?case using Cons.IH [OF rest] by simp
qed

lemma flips_completed:
  "r < length (ops p) \<Longrightarrow> completed (ops p ! r) \<Longrightarrow> flips rnd r es p = 0"
proof (induction es arbitrary: p)
  case Nil
  then show ?case by simp
next
  case (Cons e es)
  show ?case
  proof (cases "step rnd e p")
    case None
    then show ?thesis by simp
  next
    case (Some p1)
    from step_length [OF Some] Cons.prems(1) have "r < length (ops p1)" by simp
    moreover from step_completed [OF Some Cons.prems] have "completed (ops p1 ! r)" .
    ultimately have "flips rnd r es p1 = 0" by (rule Cons.IH)
    with Some Cons.prems \<open>completed (ops p1 ! r)\<close> show ?thesis by simp
  qed
qed

lemma flips_le_1: "flips rnd r es p \<le> 1"
proof (induction es arbitrary: p)
  case Nil
  then show ?case by simp
next
  case (Cons e es)
  show ?case
  proof (cases "step rnd e p")
    case None
    then show ?thesis by simp
  next
    case (Some p1)
    show ?thesis
    proof (cases "r < length (ops p) \<and> completed (ops p ! r) \<noteq> completed (ops p1 ! r)")
      case True
      with step_completed [OF Some, of r] have c: "completed (ops p1 ! r)" by auto
      from True step_length [OF Some] have "r < length (ops p1)" by simp
      from flips_completed [OF this c] Some True show ?thesis by simp
    next
      case False
      with Some Cons.IH [of p1] show ?thesis by auto
    qed
  qed
qed

lemma step_returned:
  "step rnd e p = Some p' \<Longrightarrow> r < length (ops p') \<Longrightarrow> t \<in> set (returned (ops p' ! r)) \<Longrightarrow>
   completed (ops p' ! r) \<or> (r < length (ops p) \<and> t \<in> set (returned (ops p ! r)))"
  by (cases e)
     (auto simp: step_eqs nth_append nth_list_update less_Suc_eq nth_Cons' spawned_nth
       split: if_splits op_kind.splits option.splits)

lemma run_returned:
  "run rnd es (GumV8Platform_new now) = Some p \<Longrightarrow> r < length (ops p) \<Longrightarrow>
   t \<in> set (returned (ops p ! r)) \<Longrightarrow> completed (ops p ! r)"
proof (induction es arbitrary: p rule: rev_induct)
  case Nil
  then show ?case by auto
next
  case (snoc e es)
  then obtain p1 where p1: "run rnd es (GumV8Platform_new now) = Some p1"
    and st: "step rnd e p1 = Some p"
    by (auto simp: run_snoc split: option.splits)
  from step_returned [OF st snoc.prems(2,3)] show ?case
  proof
    assume "completed (ops p ! r)" then show ?thesis .
  next
    assume a: "r < length (ops p1) \<and> t \<in> set (returned (ops p1 ! r))"
    with snoc.IH [OF p1] have "completed (ops p1 ! r)" by simp
    with a step_completed [OF st] show ?thesis by simp
  qed
qed

lemma step_Cancel_pool:
  "r < length (ops p) \<Longrightarrow> kind (ops p ! r) = ThreadPoolOperation \<Longrightarrow>
   step rnd (Call_Cancel r) p = Some p"
  by (simp add: GumV8ThreadPoolOperation_Cancel_def)

lemma run_without_Cancel:
  "r < length (ops p) \<Longrightarrow> kind (ops p ! r) = ThreadPoolOperation \<Longrightarrow>
   run rnd (removeAll (Call_Cancel r) es) p = run rnd es p"
proof (induction es arbitrary: p)
  case Nil
  then show ?case by simp
next
  case (Cons e es)
  show ?case
  proof (cases "e = Call_Cancel r")
    case True
    with Cons show ?thesis by (simp add: step_Cancel_pool del: step.simps)
  next
    case False
    show ?thesis
    proof (cases "step rnd e p")
      case None
      with False show ?thesis by simp
    next
      case (Some p1)
      from step_length [OF Some] Cons.prems(1) have "r < length (ops p1)" by simp
      moreover from step_kind [OF Some Cons.prems(1)] Cons.prems(2)
      have "kind (ops p1 ! r) = ThreadPoolOperation" by simp
      ultimately have "run rnd (removeAll (Call_Cancel r) es) p1 = run rnd es p1"
        by (rule Cons.IH)
      with False Some show ?thesis by simp
    qed
  qed
qed

lemma g_source_destroy_trace:
  "x \<in> set (trace (g_source_destroy r p)) \<Longrightarrow> x \<in> set (trace p) \<or> x = Write JsOperations True"
  "\<not> lock p \<Longrightarrow> \<not> lock (g_source_destroy r p)"
  by (auto simp: g_source_destroy_eq split: option.splits if_splits)

lemma GetForegroundTaskRunner_lookup_trace:
  "trace (snd (GetForegroundTaskRunner_lookup isolate p)) = trace p @
     (if foreground_runners p isolate = None then [Write ForegroundRunners (lock p)] else [])"
  by (simp add: GetForegroundTaskRunner_lookup_def subscript_def prim_defs Let_def
      split: option.splits)

lemma GetForegroundTaskRunner_rest_trace:
  "trace (snd (GetForegroundTaskRunner_rest isolate runner p)) = trace p @
     (if runner = None then [Write ForegroundRunners (lock p)] else [])"
  by (simp add: GetForegroundTaskRunner_rest_def prim_defs Let_def)

lemma step_trace:
  assumes "step rnd e p = Some p'" "\<not> lock p"
  shows "\<not> lock p' \<and>
    (\<forall>x \<in> set (trace p'). x \<in> set (trace p) \<or> x = Write ForegroundRunners False \<or> lock_respected x)"
proof (cases "\<exists>r. e = Call_Cancel r")
  case True
  then obtain r where e: "e = Call_Cancel r" ..
  from assms e have "trace p' = trace (g_source_destroy r p) \<and> lock p' = lock (g_source_destroy r p)
      \<or> p' = p"
    by (auto simp: step_eqs split: if_splits op_kind.splits)
  with assms(2) g_source_destroy_trace(1) [of _ r p] g_source_destroy_trace(2) [of p r]
  show ?thesis by fastforce
next
  case False
  with assms show ?thesis
    by (cases e)
      (auto simp: step_eqs GetForegroundTaskRunner_lookup_trace GetForegroundTaskRunner_rest_trace
        split: if_splits op_kind.splits option.splits)
qed

lemma run_trace:
  "run rnd es (GumV8Platform_new now) = Some p \<Longrightarrow>
   \<not> lock p \<and> (\<forall>x \<in> set (trace p). x = Write ForegroundRunners False \<or> lock_respected x)"
proof (induction es arbitrary: p rule: rev_induct)
  case Nil
  then show ?case by auto
next
  case (snoc e es)
  then obtain p1 where p1: "run rnd es (GumV8Platform_new now) = Some p1"
    and st: "step rnd e p1 = Some p"
    by (auto simp: run_snoc split: option.splits)
  from snoc.IH [OF p1] step_trace [OF st] show ?case by blast
qed

lemma run_append:
  "run rnd (es @ es') p = (case run rnd es p of None \<Rightarrow> None | Some p1 \<Rightarrow> run rnd es' p1)"
  by (induction es arbitrary: p) (auto split: option.splits)

lemma run_length: "run rnd es p = Some p' \<Longrightarrow> length (ops p) \<le> length (ops p')"
proof (induction es arbitrary: p)
  case Nil
  then show ?case by simp
next
  case (Cons e es)
  then obtain p1 where st: "step rnd e p = Some p1" and rest: "run rnd es p1 = Some p'"
    by (auto split: option.splits)
  from step_length [OF st] Cons.IH [OF rest] show ?case by simp
qed

lemma run_func:
  "run rnd es p = Some p' \<Longrightarrow> r < length (ops p) \<Longrightarrow> func (ops p' ! r) = func (ops p ! r)"
proof (induction es arbitrary: p)
  case Nil
  then show ?case by simp
next
  case (Cons e es)
  then obtain p1 where st: "step rnd e p = Some p1" and rest: "run rnd es p1 = Some p'"
    by (auto split: option.splits)
  from step_length [OF st] Cons.prems(2) have "r < length (ops p1)" by simp
  with Cons.IH [OF rest] step_func [OF st Cons.prems(2)] show ?case by simp
qed

lemma step_completes:
  "step rnd e p = Some p' \<Longrightarrow> e = Perform_continues r ch \<or> e = Cancel_continues r ch \<Longrightarrow>
   completed (ops p' ! r)"
  by (auto simp: step_eqs split: if_splits op_kind.splits)



lemmas eval_simps = step_eqs g_source_destroy_eq GumV8MainContextOperation_new_def
  GumV8ThreadPoolOperation_new_def GumV8Platform_new_def wake_def spawned_def reported_def
  calls_def in_cond_wait_def GetForegroundTaskRunner_def GetForegroundTaskRunner_lookup_def
  GetForegroundTaskRunner_rest_def subscript_def new_runner_def record_write_def
  record_entry_def MonotonicallyIncreasingTime_def g_get_monotonic_time_def
  signed_divide_int_def

lemma Perform_eq:
  "GumV8MainContextOperation_Perform rnd ch r p =
     p\<lparr>lock := False,
       ops := (ops p @ spawned (func (ops p ! r)))
                [r := wake ch (((ops p @ spawned (func (ops p ! r))) ! r)\<lparr>completed := True\<rparr>)],
       trace := trace p @ [FuncCalled r] @ reported rnd (func (ops p ! r)) p
                  @ [Write (CompletedFlag r) True, CondSignal r True]\<rparr>"
  "GumV8ThreadPoolOperation_Perform rnd ch r p =
     p\<lparr>lock := False,
       ops := (ops p @ spawned (func (ops p ! r)))
                [r := wake ch (((ops p @ spawned (func (ops p ! r))) ! r)\<lparr>completed := True\<rparr>)],
       trace := trace p @ [FuncCalled r] @ reported rnd (func (ops p ! r)) p
                  @ [Write (CompletedFlag r) True, CondSignal r True]\<rparr>"
  by (simp_all add: GumV8MainContextOperation_Perform_def GumV8ThreadPoolOperation_Perform_def
      GumV8MainContextOperation_Perform_func_def GumV8ThreadPoolOperation_Perform_func_def
      GumV8MainContextOperation_Perform_locked_def GumV8ThreadPoolOperation_Perform_locked_def
      call_func_eq locked_block_eq)

lemma wake_queues:
  "set (waiters (wake ch x)) \<subseteq> set (waiters x)"
  "set (woken (wake ch x)) = set (woken x) \<union> (set (waiters x) - set (waiters (wake ch x)))"
  "waiters x \<noteq> [] \<Longrightarrow> \<exists>t \<in> set (waiters x). t \<notin> set (waiters (wake ch x))"
proof -
  define w where "w = filter (\<lambda>t. t \<in> set ch) (waiters x)"
  define w' where "w' = (if w = [] then take 1 (waiters x) else w)"
  have eq: "wake ch x = x\<lparr>waiters := filter (\<lambda>t. t \<notin> set w') (waiters x), woken := woken x @ w'\<rparr>"
    by (simp add: wake_def w_def w'_def Let_def)
  have sub: "set w' \<subseteq> set (waiters x)"
    by (auto simp: w'_def w_def dest: in_set_takeD)
  show "set (waiters (wake ch x)) \<subseteq> set (waiters x)" by (auto simp: eq)
  from sub show "set (woken (wake ch x)) = set (woken x) \<union> (set (waiters x) - set (waiters (wake ch x)))"
    by (auto simp: eq)
  show "\<exists>t \<in> set (waiters x). t \<notin> set (waiters (wake ch x))" if "waiters x \<noteq> []"
  proof -
    from that have "w' \<noteq> []" by (cases "waiters x") (auto simp: w'_def)
    then obtain t where "t \<in> set w'" by (cases w') auto
    with sub show ?thesis by (auto simp: eq)
  qed
qed

lemma registry_inv_new: "registry_inv (GumV8Platform_new now)"
  by (simp add: registry_inv_def GumV8Platform_new_def)

lemma GetForegroundTaskRunner_hit:
  "foreground_runners p i = Some (Some rn) \<Longrightarrow> GetForegroundTaskRunner i p = (Some rn, p)"
  by (simp add: GetForegroundTaskRunner_def GetForegroundTaskRunner_lookup_def
      GetForegroundTaskRunner_rest_def subscript_def)

lemma GetForegroundTaskRunner_miss:
  "foreground_runners p i = None \<or> foreground_runners p i = Some None \<Longrightarrow>
   fst (GetForegroundTaskRunner i p) = Some (length (runners p)) \<and>
   runners (snd (GetForegroundTaskRunner i p)) = runners p @ [i] \<and>
   foreground_runners (snd (GetForegroundTaskRunner i p)) =
     (foreground_runners p)(i \<mapsto> Some (length (runners p)))"
  by (auto simp: GetForegroundTaskRunner_def GetForegroundTaskRunner_lookup_def
      GetForegroundTaskRunner_rest_def subscript_def prim_defs)

lemma GetForegroundTaskRunner_registry:
  assumes "registry_inv p"
  shows "registry_inv (snd (GetForegroundTaskRunner i p))"
proof (cases "\<exists>rn. foreground_runners p i = Some (Some rn)")
  case True
  with assms show ?thesis by (auto simp: GetForegroundTaskRunner_hit)
next
  case False
  then have miss: "foreground_runners p i = None \<or> foreground_runners p i = Some None"
    by (cases "foreground_runners p i") auto
  from False assms have fresh: "\<And>rn. rn < length (runners p) \<Longrightarrow> runners p ! rn \<noteq> i"
    by (auto simp: registry_inv_def)
  from assms fresh show ?thesis
    unfolding registry_inv_def
    by (auto simp: GetForegroundTaskRunner_miss [OF miss] nth_append less_Suc_eq)
qed

lemma GetForegroundTaskRunner_registers:
  "\<exists>rn. fst (GetForegroundTaskRunner i p) = Some rn \<and>
        foreground_runners (snd (GetForegroundTaskRunner i p)) i = Some (Some rn)"
proof (cases "\<exists>rn. foreground_runners p i = Some (Some rn)")
  case True
  then show ?thesis by (auto simp: GetForegroundTaskRunner_hit)
next
  case False
  then have miss: "foreground_runners p i = None \<or> foreground_runners p i = Some None"
    by (cases "foreground_runners p i") auto
  from GetForegroundTaskRunner_miss [OF miss] show ?thesis by simp
qed

text \<open>
  Calls of GetForegroundTaskRunner that follow one another, none starting before the
  one before it has returned, do memoize: where the registry and the heap of runners
  agree, they still agree after a call, a second call for the same isolate returns the
  same runner and changes nothing, and a call for another isolate returns another
  runner.
\<close>

lemma GetForegroundTaskRunner_one_after_the_other:
  assumes "registry_inv p"
  shows "fst (GetForegroundTaskRunner i p) \<noteq> None \<and>
         registry_inv (snd (GetForegroundTaskRunner i p)) \<and>
         GetForegroundTaskRunner i (snd (GetForegroundTaskRunner i p)) =
           GetForegroundTaskRunner i p \<and>
         (i \<noteq> j \<longrightarrow> fst (GetForegroundTaskRunner j (snd (GetForegroundTaskRunner i p)))
                      \<noteq> fst (GetForegroundTaskRunner i p))"
proof -
  let ?p' = "snd (GetForegroundTaskRunner i p)"
  from assms have inv: "registry_inv ?p'"
    by (rule GetForegroundTaskRunner_registry)
  from GetForegroundTaskRunner_registers [of i p] obtain rn
    where rn: "fst (GetForegroundTaskRunner i p) = Some rn"
      and reg: "foreground_runners ?p' i = Some (Some rn)"
    by blast
  from reg have hit: "GetForegroundTaskRunner i ?p' = (Some rn, ?p')"
    by (rule GetForegroundTaskRunner_hit)
  from inv reg have at: "rn < length (runners ?p')" "runners ?p' ! rn = i"
    by (auto simp: registry_inv_def)
  have other: "fst (GetForegroundTaskRunner j ?p') \<noteq> Some rn" if "i \<noteq> j"
  proof (cases "\<exists>rn'. foreground_runners ?p' j = Some (Some rn')")
    case True
    then obtain rn' where j: "foreground_runners ?p' j = Some (Some rn')" ..
    with inv have "runners ?p' ! rn' = j" by (auto simp: registry_inv_def)
    with at that have "rn' \<noteq> rn" by auto
    with j show ?thesis by (simp add: GetForegroundTaskRunner_hit)
  next
    case False
    then have miss: "foreground_runners ?p' j = None \<or> foreground_runners ?p' j = Some None"
      by (cases "foreground_runners ?p' j") auto
    from GetForegroundTaskRunner_miss [OF miss] at show ?thesis by simp
  qed
  have same: "GetForegroundTaskRunner i ?p' = GetForegroundTaskRunner i p"
    using rn hit by (simp add: prod_eq_iff)
  from rn have "fst (GetForegroundTaskRunner i p) \<noteq> None" by simp
  moreover note inv same
  moreover from other rn have "i \<noteq> j \<longrightarrow> fst (GetForegroundTaskRunner j ?p')
                      \<noteq> fst (GetForegroundTaskRunner i p)" by simp
  ultimately show ?thesis by blast
qed

lemma MonotonicallyIncreasingTime_rounded:
  "rounding rnd \<Longrightarrow> rnd (MonotonicallyIncreasingTime rnd p) = MonotonicallyIncreasingTime rnd p"
  by (simp add: rounding_def MonotonicallyIncreasingTime_def Let_def)

lemma deadline_not_before:
  assumes "rounding rnd"
  shows "MonotonicallyIncreasingTime rnd q \<le> rnd (MonotonicallyIncreasingTime rnd q + rnd (1 / 60))"
proof -
  from assms have m: "mono rnd" and z: "rnd 0 = 0" by (simp_all add: rounding_def)
  from m have "rnd 0 \<le> rnd (1 / 60)" by (rule monoD) simp
  with z have "MonotonicallyIncreasingTime rnd q \<le> MonotonicallyIncreasingTime rnd q + rnd (1 / 60)"
    by simp
  with m have "rnd (MonotonicallyIncreasingTime rnd q)
      \<le> rnd (MonotonicallyIncreasingTime rnd q + rnd (1 / 60))"
    by (rule monoD)
  with MonotonicallyIncreasingTime_rounded [OF assms, of q] show ?thesis by simp
qed

lemma destroyed_again: "destroyed src \<Longrightarrow> src\<lparr>destroyed := True\<rparr> = src"
  by (cases src) simp

lemma g_source_destroy_source:
  "r' < length (ops p) \<Longrightarrow>
   source (ops (g_source_destroy r p) ! r') =
     (if r' = r then map_option (\<lambda>src. src\<lparr>destroyed := True\<rparr>) (source (ops p ! r))
      else source (ops p ! r'))"
  by (auto simp: g_source_destroy_eq destroyed_again split: option.splits)

lemma op_inv_new [simp]:
  "op_inv (GumV8ThreadPoolOperation_new f)"
  "op_inv ((GumV8ThreadPoolOperation_new f)\<lparr>job := Queued\<rparr>)"
  "op_inv ((GumV8MainContextOperation_new f \<lparr>stype = st, priority = prio, destroyed = False\<rparr>)
             \<lparr>job := Queued\<rparr>)"
  by (simp_all add: op_inv_def)

lemma op_inv_spawned: "i < length (spawned f) \<Longrightarrow> op_inv (spawned f ! i)"
  by (cases f) (simp_all add: spawned_def)

lemma step_op_inv:
  "step rnd e p = Some p' \<Longrightarrow> r < length (ops p') \<Longrightarrow>
   (r < length (ops p) \<Longrightarrow> op_inv (ops p ! r)) \<Longrightarrow> op_inv (ops p' ! r)"
proof (cases "\<exists>r'. e = Call_Cancel r'")
  case True
  assume st: "step rnd e p = Some p'" and r: "r < length (ops p')"
    and inv: "r < length (ops p) \<Longrightarrow> op_inv (ops p ! r)"
  from True obtain r' where e: "e = Call_Cancel r'" ..
  from st e r have rp: "r < length (ops p)"
    by (auto simp: step_eqs split: if_splits op_kind.splits)
  with st e inv show ?thesis
    by (auto simp: step_eqs nth_list_update g_source_destroy_source op_inv_def
          split: if_splits op_kind.splits)
next
  case False
  assume "step rnd e p = Some p'" "r < length (ops p')"
    "r < length (ops p) \<Longrightarrow> op_inv (ops p ! r)"
  with False show ?thesis
    by (cases e)
      (auto simp: step_eqs nth_append nth_list_update less_Suc_eq nth_Cons' op_inv_spawned
        op_inv_def [of "_\<lparr>job := Running\<rparr>"] op_inv_def [of "_\<lparr>job := Finished\<rparr>"]
        op_inv_def [of "_\<lparr>job := Finished, source := _\<rparr>"]
        op_inv_def [of "wake _ _"] op_inv_def [of "_\<lparr>cancelling := _\<rparr>"]
        op_inv_def [of "_\<lparr>returned := _\<rparr>"] op_inv_def [of "_\<lparr>waiters := _\<rparr>"]
        op_inv_def [of "_\<lparr>woken := _, waiters := _\<rparr>"]
        op_inv_def [of "_\<lparr>waiters := _, woken := _, returned := _\<rparr>"]
        op_inv_def [of "ops p ! _"]
        split: if_splits op_kind.splits option.splits)
qed

lemma run_op_inv:
  "run rnd es (GumV8Platform_new now) = Some p \<Longrightarrow> r < length (ops p) \<Longrightarrow> op_inv (ops p ! r)"
proof (induction es arbitrary: p r rule: rev_induct)
  case Nil
  then show ?case by auto
next
  case (snoc e es)
  then obtain p1 where p1: "run rnd es (GumV8Platform_new now) = Some p1"
    and st: "step rnd e p1 = Some p"
    by (auto simp: run_snoc split: option.splits)
  from snoc.IH [OF p1] have "r < length (ops p1) \<Longrightarrow> op_inv (ops p1 ! r)" .
  with step_op_inv [OF st snoc.prems(2)] show ?case by blast
qed

text \<open>
  An operation that has been handed to its scheduler can always reach a terminal
  state: the steps that complete it are possible.
\<close>

lemma scheduled_can_complete:
  assumes reach: "run rnd es (GumV8Platform_new now) = Some p"
    and r: "r < length (ops p)" and job: "job (ops p ! r) \<noteq> Unscheduled"
  shows "\<exists>es' p'. run rnd es' p = Some p' \<and> completed (ops p' ! r)"
proof -
  from run_op_inv [OF reach r] have inv: "op_inv (ops p ! r)" .
  have finish: "\<exists>es' p'. run rnd es' q = Some p' \<and> completed (ops p' ! r)"
    if "r < length (ops q)" "job (ops q ! r) = Running" for q
  proof -
    from that obtain q' where q': "step rnd (Perform_continues r []) q = Some q'"
      by (cases "kind (ops q ! r)") simp_all
    from step_completes [OF q'] have "completed (ops q' ! r)" by simp
    with q' have "run rnd [Perform_continues r []] q = Some q' \<and> completed (ops q' ! r)"
      by simp
    then show ?thesis by blast
  qed
  have after: "\<exists>es' p'. run rnd es' p = Some p' \<and> completed (ops p' ! r)"
    if "step rnd e p = Some q" "job (ops q ! r) = Running" for e q
  proof -
    from step_length [OF that(1)] r have "r < length (ops q)" by simp
    from finish [OF this that(2)] obtain es' p'
      where "run rnd es' q = Some p'" "completed (ops p' ! r)" by blast
    with that(1) have "run rnd (e # es') p = Some p' \<and> completed (ops p' ! r)" by simp
    then show ?thesis by blast
  qed
  show ?thesis
  proof (cases "completed (ops p ! r)")
    case True
    then have "run rnd [] p = Some p \<and> completed (ops p ! r)" by simp
    then show ?thesis by blast
  next
    case pending: False
    show ?thesis
    proof (cases "job (ops p ! r)")
      case Unscheduled
      with job show ?thesis by simp
    next
      case Running
      from finish [OF r Running] show ?thesis .
    next
      case Finished
      with inv pending show ?thesis by (simp add: op_inv_def)
    next
      case Queued
      show ?thesis
      proof (cases "kind (ops p ! r)")
        case ThreadPoolOperation
        with r Queued have "step rnd (Job_started r) p = Some (PerformThreadPoolOperation_begin rnd r p)"
          by simp
        moreover from r have "job (ops (PerformThreadPoolOperation_begin rnd r p) ! r) = Running"
          by (simp add: Perform_begin_eq nth_append)
        ultimately show ?thesis by (rule after)
      next
        case MainContextOperation
        with inv obtain src where src: "source (ops p ! r) = Some src"
          by (auto simp: op_inv_def)
        show ?thesis
        proof (cases "destroyed src")
          case False
          with r Queued MainContextOperation src
          have "step rnd (Source_dispatched r) p = Some (PerformMainContextOperation_begin rnd r p)"
            by simp
          moreover from r have "job (ops (PerformMainContextOperation_begin rnd r p) ! r) = Running"
            by (simp add: Perform_begin_eq nth_append)
          ultimately show ?thesis by (rule after)
        next
          case True
          with inv src pending have "0 < cancelling (ops p ! r)" by (simp add: op_inv_def)
          with r MainContextOperation obtain q
            where q: "step rnd (Cancel_continues r []) p = Some q" by simp
          from step_completes [OF q] have "completed (ops q ! r)" by simp
          with q have "run rnd [Cancel_continues r []] p = Some q \<and> completed (ops q ! r)"
            by simp
          then show ?thesis by blast
        qed
      qed
    qed
  qed
qed

section \<open>The properties\<close>

text \<open>
  C1 (ScheduleOnThreadPoolDelayed returns a handle to the eventual pool operation) does
  not hold of the code. Evaluated with a delay of 50 ms on a new platform, the function
  returns no handle at all. Of the three operations that exist once the timer has fired
  and its callback has run, the first is the thread pool operation the function made
  and never submitted, the second is the timer's main context operation, and the third,
  made by the timer's callable, is the one queued on the pool to run the caller's
  callable; the function could not have returned it, since it did not exist yet.
\<close>

theorem ScheduleOnThreadPoolDelayed_returns_no_handle:
  "fst (ScheduleOnThreadPoolDelayed 50 (UserFunc 0) (GumV8Platform_new 0)) = None \<and>
   map_option (map job \<circ> ops)
     (run rnd [Call_ScheduleOnThreadPoolDelayed 50 (UserFunc 0), Source_dispatched 1,
           Perform_continues 1 []] (GumV8Platform_new 0)) = Some [Unscheduled, Finished, Queued] \<and>
   map_option (map func \<circ> ops)
     (run rnd [Call_ScheduleOnThreadPoolDelayed 50 (UserFunc 0), Source_dispatched 1,
           Perform_continues 1 []] (GumV8Platform_new 0)) =
     Some [UserFunc 0, SubmitToThreadPool (UserFunc 0), UserFunc 0]"
  by (simp add: eval_simps)


text \<open>
  What does hold of every operation, in every state \<open>p\<close> the platform can reach and
  every continuation \<open>es'\<close> from it: its callable has been called at most once; at most
  one step of \<open>es'\<close> changes its flag; if it is terminal in \<open>p\<close> it is terminal after
  \<open>es'\<close> and no step of \<open>es'\<close> changes its flag; and the locked block of Perform and
  that of Cancel each leave it terminal.
\<close>

lemma operation_terminal_at_most_once:
  assumes "run rnd es (GumV8Platform_new now) = Some p" and "run rnd es' p = Some p'"
    and "r < length (ops p)"
  shows "calls r p' \<le> 1 \<and> flips rnd r es' p \<le> 1 \<and>
         (completed (ops p ! r) \<longrightarrow> completed (ops p' ! r) \<and> flips rnd r es' p = 0) \<and>
         (\<forall>q ch. step rnd (Perform_continues r ch) p' = Some q \<or>
                 step rnd (Cancel_continues r ch) p' = Some q
              \<longrightarrow> completed (ops q ! r))"
proof -
  from assms(1,2) have "run rnd (es @ es') (GumV8Platform_new now) = Some p'"
    by (simp add: run_append)
  from run_calls [OF this, of r] have "calls r p' \<le> 1" by simp
  moreover have "flips rnd r es' p \<le> 1" by (rule flips_le_1)
  moreover have "completed (ops p ! r) \<longrightarrow> completed (ops p' ! r) \<and> flips rnd r es' p = 0"
    using run_completed [OF assms(2,3)] flips_completed [OF assms(3)] by simp
  moreover have "\<forall>q ch. step rnd (Perform_continues r ch) p' = Some q \<or>
                 step rnd (Cancel_continues r ch) p' = Some q
      \<longrightarrow> completed (ops q ! r)"
    using step_completes [of rnd _ p' _ r] by blast
  ultimately show ?thesis by simp
qed

text \<open>
  C3: in every state the platform can reach, a thread whose Await on an operation has
  returned finds that operation completed. A call of Await on a completed operation
  returns in the call itself: the thread is recorded as returned, it does not join the
  waiters, and the lock is released. On an operation that is not completed the call
  does not return: the thread joins the waiters.
\<close>

theorem Await_returns_only_when_completed:
  assumes "run rnd es (GumV8Platform_new now) = Some p" and "r < length (ops p)"
  shows "(t \<in> set (returned (ops p ! r)) \<longrightarrow> completed (ops p ! r)) \<and>
         (completed (ops p ! r) \<longrightarrow>
            returned (ops (Await_enter t r p) ! r) = returned (ops p ! r) @ [t] \<and>
            waiters (ops (Await_enter t r p) ! r) = waiters (ops p ! r) \<and>
            \<not> lock (Await_enter t r p)) \<and>
         (\<not> completed (ops p ! r) \<longrightarrow>
            returned (ops (Await_enter t r p) ! r) = returned (ops p ! r) \<and>
            waiters (ops (Await_enter t r p) ! r) = waiters (ops p ! r) @ [t])"
  using run_returned [OF assms, of t] assms(2) by (simp add: Await_enter_eq)

text \<open>
  C3 at a concrete run: thread 1 awaits a pool operation before it runs and returns
  after it has completed; thread 2 then awaits the completed operation and returns at
  once.
\<close>

theorem Await_returns_only_when_completed_witness:
  "\<exists>p. run (\<lambda>x. x) [Call_ScheduleOnThreadPool (UserFunc 0), Call_Await 1 0, Job_started 0,
            Perform_continues 0 [], Wakeup 1 0] (GumV8Platform_new 0) = Some p \<and>
       0 < length (ops p) \<and> returned (ops p ! 0) = [1] \<and> completed (ops p ! 0) \<and>
       returned (ops (Await_enter 2 0 p) ! 0) = [1, 2] \<and>
       waiters (ops (Await_enter 2 0 p) ! 0) = []"
proof -
  define p where "p = the (run (\<lambda>x. x) [Call_ScheduleOnThreadPool (UserFunc 0), Call_Await 1 0,
            Job_started 0, Perform_continues 0 [], Wakeup 1 0] (GumV8Platform_new 0))"
  have 1: "run (\<lambda>x. x) [Call_ScheduleOnThreadPool (UserFunc 0), Call_Await 1 0, Job_started 0,
            Perform_continues 0 [], Wakeup 1 0] (GumV8Platform_new 0) = Some p"
    unfolding p_def by (simp add: eval_simps)
  have 2: "0 < length (ops p)" "returned (ops p ! 0) = [1]" "waiters (ops p ! 0) = []"
    unfolding p_def by (simp_all add: eval_simps)
  from Await_returns_only_when_completed [OF 1 2(1), of 1] 2
  have 3: "completed (ops p ! 0)" by simp
  with Await_returns_only_when_completed [OF 1 2(1), of 2] 2
  have "returned (ops (Await_enter 2 0 p) ! 0) = [1, 2] \<and> waiters (ops (Await_enter 2 0 p) ! 0) = []"
    by simp
  with 1 2 3 show ?thesis by blast
qed

text \<open>
  C4, as claimed, fails in its last part: Perform signals the condition variable with
  \<^verbatim>\<open>g_cond_signal\<close>, not a broadcast, and a signal need not unblock more than one
  waiter. With threads 1 and 2 blocked in Await on a pool operation and the host
  unblocking thread 1 at the signal, Perform completes the operation and thread 2 is
  still blocked.
\<close>

theorem Perform_signal_leaves_waiter_counterexample:
  "completed (ops (GumV8ThreadPoolOperation_Perform (\<lambda>x. x) [1] 0
      (Await_enter 2 0 (Await_enter 1 0
         (snd (ScheduleOnThreadPool (UserFunc 0) (GumV8Platform_new 0)))))) ! 0) \<and>
   waiters (ops (Await_enter 2 0 (Await_enter 1 0
         (snd (ScheduleOnThreadPool (UserFunc 0) (GumV8Platform_new 0))))) ! 0) = [1, 2] \<and>
   waiters (ops (GumV8ThreadPoolOperation_Perform (\<lambda>x. x) [1] 0
      (Await_enter 2 0 (Await_enter 1 0
         (snd (ScheduleOnThreadPool (UserFunc 0) (GumV8Platform_new 0)))))) ! 0) = [2]"
  by (simp add: eval_simps Perform_eq)

text \<open>
  C4, amended: for an operation of either class (the two bodies do the same), Perform
  first calls the callable, once, then with the lock held sets \<open>completed\<close> and
  signals the condition variable, and releases the lock. Whatever the host chooses at
  the signal, if threads are blocked in Await on the operation at least one of them is
  unblocked, and the unblocked threads are exactly the waiters that wait no more; that
  all of them are unblocked is not promised.
\<close>

theorem Perform_calls_then_completes:
  assumes "r < length (ops p)"
  shows "GumV8ThreadPoolOperation_Perform rnd ch r p = GumV8MainContextOperation_Perform rnd ch r p \<and>
         trace (GumV8MainContextOperation_Perform rnd ch r p) =
           trace p @ [FuncCalled r] @ reported rnd (func (ops p ! r)) p
             @ [Write (CompletedFlag r) True, CondSignal r True] \<and>
         calls r (GumV8MainContextOperation_Perform rnd ch r p) = calls r p + 1 \<and>
         completed (ops (GumV8MainContextOperation_Perform rnd ch r p) ! r) \<and>
         \<not> lock (GumV8MainContextOperation_Perform rnd ch r p) \<and>
         set (waiters (ops (GumV8MainContextOperation_Perform rnd ch r p) ! r))
           \<subseteq> set (waiters (ops p ! r)) \<and>
         set (woken (ops (GumV8MainContextOperation_Perform rnd ch r p) ! r)) =
           set (woken (ops p ! r)) \<union>
             (set (waiters (ops p ! r))
                - set (waiters (ops (GumV8MainContextOperation_Perform rnd ch r p) ! r))) \<and>
         (waiters (ops p ! r) \<noteq> [] \<longrightarrow>
            (\<exists>t \<in> set (waiters (ops p ! r)).
               t \<notin> set (waiters (ops (GumV8MainContextOperation_Perform rnd ch r p) ! r))))"
proof -
  let ?x = "(ops p ! r)\<lparr>completed := True\<rparr>"
  from assms have at: "ops (GumV8MainContextOperation_Perform rnd ch r p) ! r = wake ch ?x"
    by (simp add: Perform_eq nth_append)
  have w: "waiters ?x = waiters (ops p ! r)" "woken ?x = woken (ops p ! r)" by simp_all
  from wake_queues [where ch = ch and x = ?x] w at
  have "set (waiters (ops (GumV8MainContextOperation_Perform rnd ch r p) ! r))
           \<subseteq> set (waiters (ops p ! r))"
    and "set (woken (ops (GumV8MainContextOperation_Perform rnd ch r p) ! r)) =
           set (woken (ops p ! r)) \<union>
             (set (waiters (ops p ! r))
                - set (waiters (ops (GumV8MainContextOperation_Perform rnd ch r p) ! r)))"
    and "waiters (ops p ! r) \<noteq> [] \<longrightarrow>
            (\<exists>t \<in> set (waiters (ops p ! r)).
               t \<notin> set (waiters (ops (GumV8MainContextOperation_Perform rnd ch r p) ! r)))"
    by simp_all
  moreover have "GumV8ThreadPoolOperation_Perform rnd ch r p =
      GumV8MainContextOperation_Perform rnd ch r p"
    by (simp add: Perform_eq)
  moreover have "trace (GumV8MainContextOperation_Perform rnd ch r p) =
           trace p @ [FuncCalled r] @ reported rnd (func (ops p ! r)) p
             @ [Write (CompletedFlag r) True, CondSignal r True]"
    "calls r (GumV8MainContextOperation_Perform rnd ch r p) = calls r p + 1"
    "\<not> lock (GumV8MainContextOperation_Perform rnd ch r p)"
    by (simp_all add: Perform_eq calls_def)
  moreover from at have "completed (ops (GumV8MainContextOperation_Perform rnd ch r p) ! r)"
    by simp
  ultimately show ?thesis by blast
qed

text \<open>
  C4, amended, at a pool operation with threads 1 and 2 blocked in Await, the host
  unblocking both at the signal.
\<close>

theorem Perform_calls_then_completes_witness:
  "trace (GumV8ThreadPoolOperation_Perform (\<lambda>x. x) [1, 2] 0
            (Await_enter 2 0 (Await_enter 1 0
               (snd (ScheduleOnThreadPool (UserFunc 0) (GumV8Platform_new 0)))))) =
     [FuncCalled 0, Write (CompletedFlag 0) True, CondSignal 0 True] \<and>
   woken (ops (GumV8ThreadPoolOperation_Perform (\<lambda>x. x) [1, 2] 0
            (Await_enter 2 0 (Await_enter 1 0
               (snd (ScheduleOnThreadPool (UserFunc 0) (GumV8Platform_new 0)))))) ! 0) =
     [1, 2]"
  using Perform_calls_then_completes
    [of 0 "Await_enter 2 0 (Await_enter 1 0
             (snd (ScheduleOnThreadPool (UserFunc 0) (GumV8Platform_new 0))))" "\<lambda>x. x" "[1, 2]"]
  by (simp add: eval_simps Perform_eq)

text \<open>
  C5: Cancel of a thread pool operation leaves the platform as it is. As a step it is
  always possible on such an operation and changes nothing, and a run with its calls
  of Cancel removed ends in the same state as the run with them, so whether and when
  the callable runs does not depend on them.
\<close>

theorem pool_Cancel_is_noop:
  "GumV8ThreadPoolOperation_Cancel r p = p \<and>
   (r < length (ops p) \<and> kind (ops p ! r) = ThreadPoolOperation \<longrightarrow>
      step rnd (Call_Cancel r) p = Some p \<and>
      run rnd (removeAll (Call_Cancel r) es) p = run rnd es p)"
  using run_without_Cancel [of r p rnd es] step_Cancel_pool [of r p rnd]
  by (simp add: GumV8ThreadPoolOperation_Cancel_def del: step.simps)

text \<open>
  C5 at a concrete run: Cancel called before the job starts, while it runs and after
  it; the callable runs once all the same.
\<close>

theorem pool_Cancel_is_noop_witness:
  "run (\<lambda>x. x) [Call_Cancel 0, Job_started 0, Call_Cancel 0, Perform_continues 0 [], Call_Cancel 0]
     (snd (ScheduleOnThreadPool (UserFunc 0) (GumV8Platform_new 0))) =
   run (\<lambda>x. x) [Job_started 0, Perform_continues 0 []]
     (snd (ScheduleOnThreadPool (UserFunc 0) (GumV8Platform_new 0))) \<and>
   map_option (calls 0)
     (run (\<lambda>x. x) [Call_Cancel 0, Job_started 0, Call_Cancel 0, Perform_continues 0 [], Call_Cancel 0]
        (snd (ScheduleOnThreadPool (UserFunc 0) (GumV8Platform_new 0)))) = Some 1"
  using pool_Cancel_is_noop [of 0 "snd (ScheduleOnThreadPool (UserFunc 0) (GumV8Platform_new 0))"
      "\<lambda>x. x"
      "[Call_Cancel 0, Job_started 0, Call_Cancel 0, Perform_continues 0 [], Call_Cancel 0]"]
  by (simp add: eval_simps)

text \<open>
  C6, as claimed, fails in its last part: a successful \<^verbatim>\<open>Free\<close> does not
  de-register the range before the memory is released. The code asks the host to
  release first and removes the range from the cloak only when that succeeded, so in
  the trace of a successful \<^verbatim>\<open>Free\<close> the release precedes the removal and the
  removal does not precede the release.
\<close>

theorem Free_uncloaks_after_release_counterexample:
  "fst (GumV8MemoryBackend_Free True 4096 8192 []) \<and>
   \<not> precedes (Gum_cloak_remove_range \<lparr>base_address = 4096, size' = 8192\<rparr>)
        (Gum_memory_release 4096 8192) (snd (GumV8MemoryBackend_Free True 4096 8192 [])) \<and>
   precedes (Gum_memory_release 4096 8192)
        (Gum_cloak_remove_range \<lparr>base_address = 4096, size' = 8192\<rparr>)
        (snd (GumV8MemoryBackend_Free True 4096 8192 []))"
  by (simp add: GumV8MemoryBackend_Free_def gum_memory_release_def Uncloak_def
      gum_cloak_remove_range_def)

text \<open>
  C6, amended: \<^verbatim>\<open>Allocate\<close> returns what the host's allocation returned; when that
  is non-null its last host call before returning registers the range (base, size) with
  the cloak, and when it is null no cloak call is made. \<^verbatim>\<open>Free\<close> and
  \<^verbatim>\<open>Release\<close> return what the host's release returned; when it succeeded the
  range (address, size) is removed from the cloak right after the release and before
  returning, and when it failed no cloak call is made.
\<close>

theorem memory_backend_cloak_pairing:
  "GumV8MemoryBackend_Allocate answer address sz is_executable tr =
     (answer,
      tr @ [Gum_memory_allocate sz (if is_executable then GUM_PAGE_RWX else GUM_PAGE_RW) address]
         @ (if answer = NULL then []
            else [Gum_cloak_add_range \<lparr>base_address = answer, size' = sz\<rparr>])) \<and>
   GumV8MemoryBackend_Free ok address sz tr =
     (ok,
      tr @ [Gum_memory_release address sz]
         @ (if ok then [Gum_cloak_remove_range \<lparr>base_address = address, size' = sz\<rparr>] else [])) \<and>
   GumV8MemoryBackend_Release ok address sz tr =
     (ok,
      tr @ [Gum_memory_release address sz]
         @ (if ok then [Gum_cloak_remove_range \<lparr>base_address = address, size' = sz\<rparr>] else []))"
  by (simp add: GumV8MemoryBackend_Allocate_def GumV8MemoryBackend_Free_def
      GumV8MemoryBackend_Release_def gum_memory_allocate_def gum_memory_release_def
      Cloak_def Uncloak_def gum_cloak_add_range_def gum_cloak_remove_range_def)

text \<open>
  C7 (every store to the guarded state is made with the lock held) does not hold of
  GetForegroundTaskRunner. Evaluated for an isolate on a new platform, it stores to the
  runner registry twice (the subscript's insertion and the assignment) and the lock is
  held at neither store, while the insertion into \<open>js_operations\<close> by
  ScheduleOnJSThreadDelayed is made with the lock held.
\<close>

theorem GetForegroundTaskRunner_writes_without_lock:
  "trace (snd (GetForegroundTaskRunner 7 (GumV8Platform_new 0))) =
     [Write ForegroundRunners False, Write ForegroundRunners False] \<and>
   foreground_runners (snd (GetForegroundTaskRunner 7 (GumV8Platform_new 0))) 7 = Some (Some 0) \<and>
   trace (snd (ScheduleOnJSThreadDelayed 0 G_PRIORITY_DEFAULT (UserFunc 0) (GumV8Platform_new 0))) =
     [Write JsOperations True]"
  by (simp add: GetForegroundTaskRunner_def GetForegroundTaskRunner_lookup_def
      GetForegroundTaskRunner_rest_def subscript_def prim_defs GumV8Platform_new_def
      ScheduleOnJSThreadDelayed_eq)

text \<open>
  C8 (one runner per isolate, the same runner on every call) does not hold of the code:
  GetForegroundTaskRunner takes no lock, so two threads can both be inside it. On a new
  platform threads 1 and 2 call it for isolate 7; both execute its first statement and
  find no runner before either goes on. Each then makes a runner of its own: two
  runners exist for isolate 7, the two calls return different runners, and the registry
  keeps the second. A call made afterwards returns the second runner, not the one
  thread 1 was given.
\<close>

theorem GetForegroundTaskRunner_races:
  "map_option runner_returns
     (run rnd [Call_GetForegroundTaskRunner 1 7, Call_GetForegroundTaskRunner 2 7,
               GetForegroundTaskRunner_continues 1, GetForegroundTaskRunner_continues 2]
        (GumV8Platform_new 0)) = Some [(1, 7, Some 0), (2, 7, Some 1)] \<and>
   map_option runners
     (run rnd [Call_GetForegroundTaskRunner 1 7, Call_GetForegroundTaskRunner 2 7,
               GetForegroundTaskRunner_continues 1, GetForegroundTaskRunner_continues 2]
        (GumV8Platform_new 0)) = Some [7, 7] \<and>
   map_option (fst \<circ> GetForegroundTaskRunner 7)
     (run rnd [Call_GetForegroundTaskRunner 1 7, Call_GetForegroundTaskRunner 2 7,
               GetForegroundTaskRunner_continues 1, GetForegroundTaskRunner_continues 2]
        (GumV8Platform_new 0)) = Some (Some 1)"
  by (simp add: eval_simps)

text \<open>
  C9: PostIdleTask schedules one more operation, on an idle source of priority
  \<^verbatim>\<open>G_PRIORITY_LOW\<close> (lower than the default), whose callable runs the idle task.
  Whatever happens before that operation is dispatched (\<open>es\<close>), its dispatch in a
  state \<open>q\<close> calls the callable and the callable calls the task's \<^verbatim>\<open>Run\<close> with
  the deadline MonotonicallyIncreasingTime () + 1 / 60 computed, in doubles, from the
  clock of \<open>q\<close>; for every rounding that is monotone, fixes 0 and fixes its own
  results, that deadline is not before the clock value it was computed from. Idle
  tasks are reported enabled.
\<close>

theorem idle_task_low_priority_deadline:
  assumes "rounding rnd"
    and "run rnd es (GumV8ForegroundTaskRunner_PostIdleTask rn task p) = Some q"
    and "step rnd (Source_dispatched (length (ops p))) q = Some q'"
  shows "ops (GumV8ForegroundTaskRunner_PostIdleTask rn task p) =
           ops p @ [(GumV8MainContextOperation_new (RunIdleTask rn task)
                      \<lparr>stype = Idle_source, priority = G_PRIORITY_LOW, destroyed = False\<rparr>)
                    \<lparr>job := Queued\<rparr>] \<and>
         G_PRIORITY_DEFAULT < G_PRIORITY_LOW \<and>
         trace q' = trace q @
           [FuncCalled (length (ops p)),
            IdleTaskRun task (rnd (MonotonicallyIncreasingTime rnd q + rnd (1 / 60)))] \<and>
         MonotonicallyIncreasingTime rnd q
           \<le> rnd (MonotonicallyIncreasingTime rnd q + rnd (1 / 60)) \<and>
         GumV8ForegroundTaskRunner_IdleTasksEnabled"
proof -
  let ?r = "length (ops p)"
  let ?p1 = "GumV8ForegroundTaskRunner_PostIdleTask rn task p"
  have post: "ops ?p1 =
           ops p @ [(GumV8MainContextOperation_new (RunIdleTask rn task)
                      \<lparr>stype = Idle_source, priority = G_PRIORITY_LOW, destroyed = False\<rparr>)
                    \<lparr>job := Queued\<rparr>]"
    by (simp add: GumV8ForegroundTaskRunner_PostIdleTask_def ScheduleOnJSThread_priority_def
        ScheduleOnJSThreadDelayed_eq)
  then have r: "?r < length (ops ?p1)" and f: "func (ops ?p1 ! ?r) = RunIdleTask rn task"
    by simp_all
  from run_func [OF assms(2) r] f have fq: "func (ops q ! ?r) = RunIdleTask rn task" by simp
  from run_length [OF assms(2)] r have rq: "?r < length (ops q)" by simp
  from assms(3) rq fq have "trace q' = trace q @
           [FuncCalled ?r,
            IdleTaskRun task (rnd (MonotonicallyIncreasingTime rnd q + rnd (1 / 60)))]"
    by (auto simp: Perform_begin_eq reported_def split: if_splits)
  with post deadline_not_before [OF assms(1), of q] show ?thesis
    by (simp add: GumV8ForegroundTaskRunner_IdleTasksEnabled_def G_PRIORITY_DEFAULT_def
        G_PRIORITY_LOW_def)
qed

text \<open>
  C9 with exact arithmetic: on a new platform the runner of isolate 7 is made and an
  idle task is posted on it, and the operation is dispatched 2.500999 s later; the
  clock reads 2.5 s and the task is run with the deadline 2.5 s + 1/60 s.
\<close>

theorem idle_task_low_priority_deadline_witness:
  "\<exists>q q'. rounding (\<lambda>x. x) \<and>
     run (\<lambda>x. x) [Clock_tick 2500999]
       (GumV8ForegroundTaskRunner_PostIdleTask 0 3
          (snd (GetForegroundTaskRunner 7 (GumV8Platform_new 1000)))) = Some q \<and>
     step (\<lambda>x. x) (Source_dispatched 0) q = Some q' \<and>
     MonotonicallyIncreasingTime (\<lambda>x. x) q = 5 / 2 \<and>
     trace q' = [Write ForegroundRunners False, Write ForegroundRunners False,
                 Write JsOperations True, FuncCalled 0, IdleTaskRun 3 (5 / 2 + 1 / 60)]"
proof -
  define q where "q = the (run (\<lambda>x. x) [Clock_tick 2500999]
       (GumV8ForegroundTaskRunner_PostIdleTask 0 3
          (snd (GetForegroundTaskRunner 7 (GumV8Platform_new 1000)))))"
  define q' where "q' = the (step (\<lambda>x. x) (Source_dispatched 0) q)"
  have r: "rounding (\<lambda>x. x)" by (simp add: rounding_def mono_def)
  have 1: "run (\<lambda>x. x) [Clock_tick 2500999]
       (GumV8ForegroundTaskRunner_PostIdleTask 0 3
          (snd (GetForegroundTaskRunner 7 (GumV8Platform_new 1000)))) = Some q"
    unfolding q_def by (simp add: eval_simps)
  have 2: "step (\<lambda>x. x) (Source_dispatched 0) q = Some q'"
    unfolding q'_def q_def by (simp add: eval_simps)
  have 3: "MonotonicallyIncreasingTime (\<lambda>x. x) q = 5 / 2"
    "trace q = [Write ForegroundRunners False, Write ForegroundRunners False,
                Write JsOperations True]"
    "length (ops (snd (GetForegroundTaskRunner 7 (GumV8Platform_new 1000)))) = 0"
    unfolding q_def by (simp_all add: eval_simps)
  from idle_task_low_priority_deadline [OF r, of "[Clock_tick 2500999]" 0 3
      "snd (GetForegroundTaskRunner 7 (GumV8Platform_new 1000))" q q'] 1 2 3
  have "trace q' = [Write ForegroundRunners False, Write ForegroundRunners False,
                 Write JsOperations True, FuncCalled 0, IdleTaskRun 3 (5 / 2 + 1 / 60)]"
    by simp
  with r 1 2 3 show ?thesis by blast
qed

text \<open>
  C10: for every address and size, every host trace and every answer of the host,
  \<^verbatim>\<open>Release\<close> returns the same result as \<^verbatim>\<open>Free\<close> and makes the same host
  calls: the release of the range and, on success, its removal from the cloak.
\<close>

theorem Release_is_Free:
  "GumV8MemoryBackend_Release ok address sz tr = GumV8MemoryBackend_Free ok address sz tr \<and>
   fst (GumV8MemoryBackend_Release ok address sz tr) = ok \<and>
   snd (GumV8MemoryBackend_Release ok address sz tr) =
     snd (gum_memory_release ok address sz tr)
       @ (if ok then [Gum_cloak_remove_range \<lparr>base_address = address, size' = sz\<rparr>] else [])"
  by (simp add: GumV8MemoryBackend_Release_def GumV8MemoryBackend_Free_def
      gum_memory_release_def Uncloak_def gum_cloak_remove_range_def)

end
